theory Spec2Isabelle
  imports Main "HOL-Library.Multiset"
begin

section \<open>Characters and strings of the shell\<close>

text \<open>
  A C string is modelled as a \<^typ>\<open>string\<close> (the bytes before the terminating NUL).
  Allocation (\<^verbatim>\<open>strdup\<close>, \<^verbatim>\<open>malloc\<close>, \<^verbatim>\<open>realloc\<close>) is taken to
  succeed wherever the source answers a failure by printing a message and leaving through
  \<^verbatim>\<open>clean_exit(EXIT_FAILURE)\<close>. Two calls of \<^verbatim>\<open>strdup\<close> are not of this kind, the
  shell goes on after their failure: the copy of the command line at wsh.c line 465, and
  the copy of a name at line 752. Their outcome is an answer of the world (see below).
\<close>

abbreviation SPACE :: char where "SPACE \<equiv> CHR '' ''"
abbreviation QUOTE :: char where "QUOTE \<equiv> CHR 0x27"
abbreviation NEWLINE :: char where "NEWLINE \<equiv> CHR 0x0A"
abbreviation TABCH :: char where "TABCH \<equiv> CHR 0x09"
abbreviation PIPE :: char where "PIPE \<equiv> CHR ''|''"
abbreviation COLON :: char where "COLON \<equiv> CHR '':''"
abbreviation SLASH :: char where "SLASH \<equiv> CHR ''/''"
abbreviation DOT :: char where "DOT \<equiv> CHR ''.''"

abbreviation (input) EXIT_SUCCESS :: int where "EXIT_SUCCESS \<equiv> 0"
abbreviation (input) EXIT_FAILURE :: int where "EXIT_FAILURE \<equiv> 1"

section \<open>The tokenizer: \<^verbatim>\<open>parseline_no_subst\<close> (wsh.c, 1078-1160)\<close>

text \<open>
  What a call leaves in \<^verbatim>\<open>argv\<close> and \<^verbatim>\<open>*argc\<close>:
  \<^item> \<open>Parsed ts\<close>: \<^verbatim>\<open>argv[0..count-1]\<close> hold \<open>ts\<close>, \<^verbatim>\<open>argv[count] = NULL\<close>,
    \<^verbatim>\<open>*argc = count\<close>;
  \<^item> \<open>MissingQuote fs\<close>: the branch of lines 1122-1132: \<^verbatim>\<open>wsh_warn(MISSING_CLOSING_QUOTE)\<close>
    was called, the tokens \<open>fs\<close> stored so far were freed, \<^verbatim>\<open>*argc = 0\<close> and
    \<^verbatim>\<open>argv[0] = NULL\<close>;
  \<^item> \<open>ArgvOverflow\<close>: a store to \<^verbatim>\<open>argv[count]\<close> fell outside the caller's array. The
    source has no check of \<^verbatim>\<open>count\<close>; every caller passes an array of
    \<^verbatim>\<open>MAX_ARGS + 1\<close> slots, so the store is in range only while \<^verbatim>\<open>count \<le> MAX_ARGS\<close>.
  \<^verbatim>\<open>MAX_ARGS\<close> is a macro of the header \<^verbatim>\<open>wsh.h\<close>, which is not among the sources:
  it is a parameter of the model.
\<close>

datatype parse_result =
    Parsed "string list"
  | MissingQuote "string list"
  | ArgvOverflow

text \<open>
  The loop of lines 1114-1156. \<open>p\<close> is the rest of the buffer from the pointer
  \<^verbatim>\<open>p\<close> on, \<open>acc\<close> the tokens stored so far (\<^verbatim>\<open>count = length acc\<close>).
  \<^verbatim>\<open>strchr(p, c)\<close> finds the first \<open>c\<close>: the token is the text before it and the
  pointer moves behind it, then over the spaces that follow (lines 1154-1155).
\<close>

function tokenize_loop :: "nat \<Rightarrow> string \<Rightarrow> string list \<Rightarrow> parse_result" where
  "tokenize_loop MAX_ARGS p acc =
     (case p of
        [] \<Rightarrow> (if length acc \<le> MAX_ARGS then Parsed acc else ArgvOverflow)
      | c # q \<Rightarrow>
          if c = QUOTE then
            (if QUOTE \<in> set q then
               (if length acc \<le> MAX_ARGS then
                  tokenize_loop MAX_ARGS
                    (dropWhile (\<lambda>x. x = SPACE) (tl (dropWhile (\<lambda>x. x \<noteq> QUOTE) q)))
                    (acc @ [takeWhile (\<lambda>x. x \<noteq> QUOTE) q])
                else ArgvOverflow)
             else MissingQuote acc)
          else
            (if SPACE \<in> set p then
               (if length acc \<le> MAX_ARGS then
                  tokenize_loop MAX_ARGS
                    (dropWhile (\<lambda>x. x = SPACE) (tl (dropWhile (\<lambda>x. x \<noteq> SPACE) p)))
                    (acc @ [takeWhile (\<lambda>x. x \<noteq> SPACE) p])
                else ArgvOverflow)
             else (if length acc \<le> MAX_ARGS then Parsed acc else ArgvOverflow)))"
  by pat_completeness auto
termination
proof (relation "measure (\<lambda>(M, p, acc). length p)")
  show "wf (measure (\<lambda>(M, p, acc). length p))" by simp
next
  fix MAX_ARGS :: nat and p :: string and acc :: "string list" and c :: char and q :: string
  assume "p = c # q"
  have "length (dropWhile (\<lambda>x. x = SPACE) (tl (dropWhile (\<lambda>x. x \<noteq> QUOTE) q))) \<le> length q"
    by (metis length_dropWhile_le length_tl diff_le_self le_trans)
  then show "((MAX_ARGS, dropWhile (\<lambda>x. x = SPACE) (tl (dropWhile (\<lambda>x. x \<noteq> QUOTE) q)),
               acc @ [takeWhile (\<lambda>x. x \<noteq> QUOTE) q]), (MAX_ARGS, p, acc))
             \<in> measure (\<lambda>(M, p, acc). length p)"
    using \<open>p = c # q\<close> by simp
next
  fix MAX_ARGS :: nat and p :: string and acc :: "string list" and c :: char and q :: string
  assume "p = c # q" and "SPACE \<in> set p"
  then have "dropWhile (\<lambda>x. x \<noteq> SPACE) p \<noteq> []"
    by (simp add: dropWhile_eq_Nil_conv) blast
  then have "length (tl (dropWhile (\<lambda>x. x \<noteq> SPACE) p)) < length p"
    by (metis length_dropWhile_le length_tl diff_less length_greater_0_conv
        less_le_trans zero_less_one)
  moreover have "length (dropWhile (\<lambda>x. x = SPACE) (tl (dropWhile (\<lambda>x. x \<noteq> SPACE) p)))
      \<le> length (tl (dropWhile (\<lambda>x. x \<noteq> SPACE) p))"
    by (rule length_dropWhile_le)
  ultimately show "((MAX_ARGS, dropWhile (\<lambda>x. x = SPACE) (tl (dropWhile (\<lambda>x. x \<noteq> SPACE) p)),
               acc @ [takeWhile (\<lambda>x. x \<noteq> SPACE) p]), (MAX_ARGS, p, acc))
             \<in> measure (\<lambda>(M, p, acc). length p)"
    by simp
qed

declare tokenize_loop.simps [simp del]

text \<open>
  Lines 1080-1112: a \<^verbatim>\<open>NULL\<close> line gives no argument; otherwise the line is copied, a
  trailing newline becomes a space (or a space is appended when there is none), and the
  leading spaces are skipped. Only the space character separates tokens.
\<close>

definition parseline_no_subst :: "nat \<Rightarrow> string option \<Rightarrow> parse_result" where
  "parseline_no_subst MAX_ARGS cmdline =
     (case cmdline of
        None \<Rightarrow> Parsed []
      | Some line \<Rightarrow>
          (let buf = (if line \<noteq> [] \<and> last line = NEWLINE
                      then butlast line @ [SPACE] else line @ [SPACE])
           in tokenize_loop MAX_ARGS (dropWhile (\<lambda>x. x = SPACE) buf) []))"

text \<open>The value of \<^verbatim>\<open>*argc\<close> after the call.\<close>

definition argc_of :: "parse_result \<Rightarrow> nat" where
  "argc_of r = (case r of Parsed ts \<Rightarrow> length ts | MissingQuote fs \<Rightarrow> 0 | ArgvOverflow \<Rightarrow> 0)"

section \<open>The interpreter's state and its environment\<close>

text \<open>
  The format strings of the diagnostics (\<^verbatim>\<open>INVALID_EXIT_USE\<close>, \<^verbatim>\<open>CMD_NOT_FOUND\<close>, ...)
  are macros of \<^verbatim>\<open>wsh.h\<close>; a diagnostic is recorded by its macro's name. \<open>PERROR s\<close> is
  a call \<^verbatim>\<open>perror(s)\<close>.
\<close>

datatype diag =
    INVALID_EXIT_USE | INVALID_HISTORY_USE | HISTORY_INVALID_ARG | INVALID_ALIAS_USE
  | INVALID_UNALIAS_USE | INVALID_WHICH_USE | INVALID_PATH_USE | INVALID_CD_USE
  | CD_NO_HOME | EMPTY_PATH | CMD_NOT_FOUND string | EMPTY_PIPE_SEGMENT
  | MISSING_CLOSING_QUOTE | INVALID_WSH_USE | PERROR string

text \<open>What is written to the standard output.\<close>

datatype printed =
    Text string
  | WHICH_ALIAS string string
  | WHICH_BUILTIN string
  | WHICH_EXTERNAL string string
  | WHICH_NOT_FOUND string
  | AliasListing "(string \<times> string) list"

text \<open>Undefined behaviour of the C program, by its cause.\<close>

datatype fault =
    NullDeref
  | ArgvOverrun
  | HistoryOverrun
  | AssertFailed
  | UninitRead

text \<open>
  What a forked child does: it ends with a status (\<^verbatim>\<open>_exit\<close>, \<^verbatim>\<open>exit\<close>), replaces its
  image (\<^verbatim>\<open>execv(path, argv)\<close>), or runs into undefined behaviour.
\<close>

datatype child = ChildExit int | ChildExec string "string list" | ChildCrash fault

text \<open>The process-management calls the parent makes, in order.\<close>

datatype event = Forked nat child | Killed nat | WaitCalled nat

text \<open>What \<^verbatim>\<open>waitpid\<close> stores in \<^verbatim>\<open>status\<close>: \<^verbatim>\<open>WIFEXITED\<close> with \<^verbatim>\<open>WEXITSTATUS\<close>, or not.\<close>

datatype wstatus = Exited int | NotExited

text \<open>
  The globals \<^verbatim>\<open>rc\<close>, \<^verbatim>\<open>alias_hm\<close> and \<^verbatim>\<open>history_da\<close> (wsh.c, 18-20), the
  environment variable \<^verbatim>\<open>PATH\<close>, and what the process has written and called so far.
\<close>

record shell =
  rc :: int
  alias_hm :: "(string \<times> string) list"
  history_da :: "string list"
  path_env :: "string option"
  stderr_log :: "diag list"
  stdout_log :: "printed list"
  procs :: "event list"

text \<open>
  The operating system, as far as the shell asks it: \<^verbatim>\<open>access(path, X_OK) == 0\<close>,
  \<^verbatim>\<open>getenv("HOME")\<close>, whether \<^verbatim>\<open>chdir\<close> and \<^verbatim>\<open>setenv\<close> succeed, the descriptors
  \<^verbatim>\<open>pipe\<close> returns and the process \<^verbatim>\<open>fork\<close> returns for the segment at a position
  (\<open>None\<close>: the call failed), whether \<^verbatim>\<open>dup2\<close> succeeds in the child at a position, and
  what \<^verbatim>\<open>waitpid\<close> reports for a process (\<open>None\<close>: it returned -1), and whether
  the two calls of \<^verbatim>\<open>strdup\<close> that the shell survives return a copy: that of the
  command line in \<^verbatim>\<open>execute_command\<close> (line 465) and that of the name in
  \<^verbatim>\<open>find_executable_path\<close> (line 752). The working directory belongs to the world.
  Nothing is assumed of these answers.
\<close>

record world =
  access_x :: "string \<Rightarrow> bool"
  home_env :: "string option"
  chdir_ok :: "string \<Rightarrow> bool"
  setenv_ok :: "string \<Rightarrow> bool"
  pipe_res :: "nat \<Rightarrow> (nat \<times> nat) option"
  fork_res :: "nat \<Rightarrow> nat option"
  dup2_ok :: "nat \<Rightarrow> nat \<Rightarrow> bool"
  waitpid_res :: "nat \<Rightarrow> wstatus option"
  strdup_cmdline_ok :: "string \<Rightarrow> bool"
  strdup_name_ok :: "string \<Rightarrow> bool"

text \<open>
  How a call ends: it returns, the process ends through \<^verbatim>\<open>clean_exit(code)\<close>, or the
  behaviour is undefined.
\<close>

datatype 'a outcome = Return 'a | Exit int | Crash fault

abbreviation (input) STDIN_FILENO :: nat where "STDIN_FILENO \<equiv> 0"
abbreviation (input) STDOUT_FILENO :: nat where "STDOUT_FILENO \<equiv> 1"

text \<open>\<^verbatim>\<open>wsh_warn\<close> (wsh.c, 357-365) prints to the error stream and sets \<^verbatim>\<open>rc\<close>.\<close>

definition wsh_warn :: "shell \<Rightarrow> diag \<Rightarrow> shell" where
  "wsh_warn st msg = st\<lparr>stderr_log := stderr_log st @ [msg], rc := EXIT_FAILURE\<rparr>"

definition perror :: "shell \<Rightarrow> string \<Rightarrow> shell" where
  "perror st s = st\<lparr>stderr_log := stderr_log st @ [PERROR s]\<rparr>"

definition print :: "shell \<Rightarrow> printed \<Rightarrow> shell" where
  "print st x = st\<lparr>stdout_log := stdout_log st @ [x]\<rparr>"

definition log_event :: "shell \<Rightarrow> event \<Rightarrow> shell" where
  "log_event st e = st\<lparr>procs := procs st @ [e]\<rparr>"

text \<open>\<^verbatim>\<open>clean_exit\<close> (wsh.c, 345-349) frees the globals and ends the process.\<close>

definition clean_exit :: "int \<Rightarrow> 'a outcome" where
  "clean_exit return_code = Exit return_code"

text \<open>
  A call of \<^verbatim>\<open>parseline_no_subst\<close> as its caller sees it: the diagnostic of the
  missing quote has set \<^verbatim>\<open>rc\<close>, and the argument vector is empty then. \<open>None\<close>: the
  store ran over the caller's array.
\<close>

definition call_parseline :: "nat \<Rightarrow> shell \<Rightarrow> string \<Rightarrow> (shell \<times> string list) option" where
  "call_parseline MAX_ARGS st line =
     (case parseline_no_subst MAX_ARGS (Some line) of
        Parsed ts \<Rightarrow> Some (st, ts)
      | MissingQuote fs \<Rightarrow> Some (wsh_warn st MISSING_CLOSING_QUOTE, [])
      | ArgvOverflow \<Rightarrow> None)"

subsection \<open>The alias table (hash_map.c is not among the sources)\<close>

text \<open>
  Modelled from the spec: the string-keyed association table of
  \<^verbatim>\<open>hash_map.c\<close>, which is missing: insert-or-replace by key, fetch by key or
  not found, delete by key, and an enumeration for display.
\<close>

definition hm_get :: "(string \<times> string) list \<Rightarrow> string \<Rightarrow> string option" where
  "hm_get hm k = map_of hm k"

definition hm_delete :: "(string \<times> string) list \<Rightarrow> string \<Rightarrow> (string \<times> string) list" where
  "hm_delete hm k = filter (\<lambda>e. fst e \<noteq> k) hm"

definition hm_put :: "(string \<times> string) list \<Rightarrow> string \<Rightarrow> string \<Rightarrow> (string \<times> string) list" where
  "hm_put hm k v = (k, v) # hm_delete hm k"

definition hm_print_sorted :: "shell \<Rightarrow> shell" where
  "hm_print_sorted st = print st (AliasListing (alias_hm st))"

subsection \<open>The history array (dynamic_array.c)\<close>

text \<open>
  \<^verbatim>\<open>da_put\<close> (74-88) appends a copy. \<^verbatim>\<open>da_print\<close> (133-144) prints
  \<^verbatim>\<open>data[i]\<close> for \<^verbatim>\<open>i < da->size-1\<close>; \<^verbatim>\<open>size\<close> is a \<^verbatim>\<open>size_t\<close>, so on an empty
  array the bound wraps to \<^verbatim>\<open>SIZE_MAX\<close> (taken as \<open>2 ^ 64 - 1\<close>) and the loop reads
  slots that hold no entry. The loop is in range exactly when its bound is at most the
  size.
\<close>

definition da_put :: "string list \<Rightarrow> string \<Rightarrow> string list" where
  "da_put da val = da @ [val]"

definition da_print_bound :: "string list \<Rightarrow> int" where
  "da_print_bound da = (int (length da) - 1) mod 2 ^ 64"

definition da_print :: "string list \<Rightarrow> fault + string list" where
  "da_print da =
     (if da_print_bound da \<le> int (length da) then Inr (take (nat (da_print_bound da)) da)
      else Inl HistoryOverrun)"

section \<open>The path resolver: \<^verbatim>\<open>find_executable_path\<close> (wsh.c, 746-794)\<close>

text \<open>
  \<^verbatim>\<open>strtok(s, ":")\<close> and the calls \<^verbatim>\<open>strtok(NULL, ":")\<close> after it return the maximal runs of
  characters other than the delimiter, in order; an empty field is skipped.
\<close>

fun split_fields :: "char \<Rightarrow> string \<Rightarrow> string list" where
  "split_fields d [] = [[]]"
| "split_fields d (c # cs) =
     (if c = d then [] # split_fields d cs
      else (case split_fields d cs of [] \<Rightarrow> [[c]] | f # fs \<Rightarrow> (c # f) # fs))"

definition strtok_all :: "char \<Rightarrow> string \<Rightarrow> string list" where
  "strtok_all d s = filter (\<lambda>f. f \<noteq> []) (split_fields d s)"

text \<open>
  The test \<^verbatim>\<open>command_name[0] == '/' || (command_name[0] == '.' && command_name[1] == '/')\<close>
  of lines 389 and 748.
\<close>

fun is_absolute_or_relative :: "string \<Rightarrow> bool" where
  "is_absolute_or_relative [] = False"
| "is_absolute_or_relative (c # cs) =
     (c = SLASH \<or> (c = DOT \<and> (case cs of [] \<Rightarrow> False | c1 # _ \<Rightarrow> c1 = SLASH)))"

text \<open>
  The loop over the directories (lines 770-791, and 204-226 in \<^verbatim>\<open>wsh_which\<close>). In
  \<^verbatim>\<open>find_executable_path\<close> a name that passes the test above and is executable is
  returned as \<^verbatim>\<open>strdup(command_name)\<close> (line 752): when that copy fails the function
  returns \<^verbatim>\<open>NULL\<close>, as it does for a name that was not found.
\<close>

fun search_dirs :: "world \<Rightarrow> string list \<Rightarrow> string \<Rightarrow> string option" where
  "search_dirs w [] command_name = None"
| "search_dirs w (dir # dirs) command_name =
     (let temp_path = dir @ ''/'' @ command_name
      in if access_x w temp_path then Some temp_path else search_dirs w dirs command_name)"

definition find_executable_path :: "world \<Rightarrow> shell \<Rightarrow> string \<Rightarrow> string option" where
  "find_executable_path w st command_name =
     (if is_absolute_or_relative command_name then
        (if access_x w command_name then
           (if strdup_name_ok w command_name then Some command_name else None)
         else None)
      else
        (case path_env st of
           None \<Rightarrow> None
         | Some p \<Rightarrow>
             if p = [] then None else search_dirs w (strtok_all COLON p) command_name))"

section \<open>The builtins (wsh.c, 24-312)\<close>

text \<open>The names of the table \<^verbatim>\<open>builtins\<close> (lines 28-36), in its order.\<close>

definition builtin_names :: "string list" where
  "builtin_names = [''exit'', ''alias'', ''unalias'', ''which'', ''path'', ''cd'', ''history'']"

text \<open>
  A builtin takes the argument vector (\<^verbatim>\<open>argc\<close> is its length; \<^verbatim>\<open>argv[argc]\<close> is
  \<^verbatim>\<open>NULL\<close>) and returns its status; the state is passed through.
\<close>

type_synonym builtin = "world \<Rightarrow> shell \<Rightarrow> string list \<Rightarrow> (shell \<times> int) outcome"

definition wsh_exit :: builtin where
  "wsh_exit w st argv =
     (if argv = [] \<or> hd argv \<noteq> ''exit'' then Crash AssertFailed
      else if length argv > 1 then Return (wsh_warn st INVALID_EXIT_USE, EXIT_FAILURE)
      else clean_exit (rc st))"

text \<open>
  \<^verbatim>\<open>strtol(arg, &endptr, 10)\<close>: white space, an optional sign, decimal digits; the value
  is clamped to the range of \<^verbatim>\<open>long\<close> (64 bits). \<open>None\<close>: no digits, so
  \<^verbatim>\<open>endptr == arg\<close>; otherwise the value and the text \<^verbatim>\<open>endptr\<close> points to.
\<close>

definition isspace_c :: "char \<Rightarrow> bool" where
  "isspace_c c = (c = SPACE \<or> c = TABCH \<or> c = NEWLINE \<or> c = CHR 0x0B \<or> c = CHR 0x0C \<or> c = CHR 0x0D)"

definition isdigit_c :: "char \<Rightarrow> bool" where
  "isdigit_c c = (48 \<le> (of_char c :: nat) \<and> (of_char c :: nat) \<le> 57)"

definition digits_value :: "string \<Rightarrow> int" where
  "digits_value ds = foldl (\<lambda>a c. a * 10 + (int (of_char c) - 48)) 0 ds"

definition strtol :: "string \<Rightarrow> (int \<times> string) option" where
  "strtol arg =
     (let s1 = dropWhile isspace_c arg;
          neg = (s1 \<noteq> [] \<and> hd s1 = CHR ''-'');
          s2 = (if s1 \<noteq> [] \<and> (hd s1 = CHR ''-'' \<or> hd s1 = CHR ''+'') then tl s1 else s1);
          ds = takeWhile isdigit_c s2;
          v = (if neg then - digits_value ds else digits_value ds)
      in if ds = [] then None
         else Some (max (- (2 ^ 63)) (min (2 ^ 63 - 1) v), dropWhile isdigit_c s2))"

definition wsh_history :: builtin where
  "wsh_history w st argv =
     (if length argv > 2 then Return (wsh_warn st INVALID_HISTORY_USE, EXIT_FAILURE)
      else if length argv = 1 then
        (case da_print (history_da st) of
           Inl f \<Rightarrow> Crash f
         | Inr shown \<Rightarrow> Return (st\<lparr>stdout_log := stdout_log st @ map Text shown\<rparr>, EXIT_SUCCESS))
      else
        (case argv of
           [a0, arg] \<Rightarrow>
             (case strtol arg of
                None \<Rightarrow> Return (wsh_warn st HISTORY_INVALID_ARG, EXIT_FAILURE)
              | Some (n, endptr) \<Rightarrow>
                  if endptr \<noteq> [] \<or> n \<le> 0 then Return (wsh_warn st HISTORY_INVALID_ARG, EXIT_FAILURE)
                  else if nat n > length (history_da st)
                  then Return (wsh_warn st HISTORY_INVALID_ARG, EXIT_FAILURE)
                  else Return (print st (Text (history_da st ! (nat n - 1))), EXIT_SUCCESS))
         | _ \<Rightarrow> Crash NullDeref))"

text \<open>
  \<^verbatim>\<open>wsh_alias\<close> (99-129). The test of line 108 is
  \<^verbatim>\<open>argc > 4 || strcmp(argv[2], "=") != 0\<close>: with \<^verbatim>\<open>argc == 2\<close> the left side is false and
  \<^verbatim>\<open>argv[2]\<close>, the \<^verbatim>\<open>NULL\<close> that ends the vector, is handed to \<^verbatim>\<open>strcmp\<close>.
\<close>

definition wsh_alias :: builtin where
  "wsh_alias w st argv =
     (if length argv = 1 then Return (hm_print_sorted st, EXIT_SUCCESS)
      else if length argv > 4 then Return (wsh_warn st INVALID_ALIAS_USE, EXIT_FAILURE)
      else
        (case argv of
           a0 # name # eq # rest \<Rightarrow>
             if eq \<noteq> ''='' then Return (wsh_warn st INVALID_ALIAS_USE, EXIT_FAILURE)
             else
               (let command = (case rest of [a3] \<Rightarrow> a3 | _ \<Rightarrow> '' '')
                in if length name = 0 then Return (wsh_warn st INVALID_ALIAS_USE, EXIT_FAILURE)
                   else Return (st\<lparr>alias_hm := hm_put (alias_hm st) name command\<rparr>, EXIT_SUCCESS))
         | _ \<Rightarrow> Crash NullDeref))"

definition wsh_unalias :: builtin where
  "wsh_unalias w st argv =
     (case argv of
        [a0, name] \<Rightarrow> Return (st\<lparr>alias_hm := hm_delete (alias_hm st) name\<rparr>, EXIT_SUCCESS)
      | _ \<Rightarrow> Return (wsh_warn st INVALID_UNALIAS_USE, EXIT_FAILURE))"

text \<open>
  The path candidate of \<^verbatim>\<open>wsh_which\<close> (lines 177-229). Its test is
  \<^verbatim>\<open>name[0] == '.' || name[0] == '/'\<close>.
\<close>

definition which_full_path :: "world \<Rightarrow> shell \<Rightarrow> string \<Rightarrow> string option" where
  "which_full_path w st name =
     (if name \<noteq> [] \<and> (hd name = DOT \<or> hd name = SLASH) then
        (if access_x w name then Some name else None)
      else
        (case path_env st of
           None \<Rightarrow> None
         | Some p \<Rightarrow> if p = [] then None else search_dirs w (strtok_all COLON p) name))"

definition wsh_which :: builtin where
  "wsh_which w st argv =
     (case argv of
        [a0, name] \<Rightarrow>
          (case hm_get (alias_hm st) name of
             Some alias_cmd \<Rightarrow> Return (print st (WHICH_ALIAS name alias_cmd), EXIT_SUCCESS)
           | None \<Rightarrow>
               if name \<in> set builtin_names then Return (print st (WHICH_BUILTIN name), EXIT_SUCCESS)
               else
                 (case which_full_path w st name of
                    Some full_path \<Rightarrow> Return (print st (WHICH_EXTERNAL name full_path), EXIT_SUCCESS)
                  | None \<Rightarrow> Return (print st (WHICH_NOT_FOUND name), EXIT_FAILURE)))
      | _ \<Rightarrow> Return (wsh_warn st INVALID_WHICH_USE, EXIT_FAILURE))"

definition wsh_path :: builtin where
  "wsh_path w st argv =
     (if length argv > 2 then Return (wsh_warn st INVALID_PATH_USE, EXIT_FAILURE)
      else if length argv = 1 then
        (case path_env st of
           Some p \<Rightarrow> Return (print st (Text (p @ [NEWLINE])), EXIT_SUCCESS)
         | None \<Rightarrow> Return (st, EXIT_SUCCESS))
      else
        (case argv of
           [a0, v] \<Rightarrow>
             if setenv_ok w v then Return (st\<lparr>path_env := Some v\<rparr>, EXIT_SUCCESS)
             else Return (perror st ''setenv'', EXIT_FAILURE)
         | _ \<Rightarrow> Crash NullDeref))"

definition wsh_cd :: builtin where
  "wsh_cd w st argv =
     (if length argv > 2 then Return (wsh_warn st INVALID_CD_USE, EXIT_FAILURE)
      else
        (case (if length argv = 1 then home_env w
               else (case argv of [a0, d] \<Rightarrow> Some d | _ \<Rightarrow> None)) of
           None \<Rightarrow>
             if length argv = 1 then Return (wsh_warn st CD_NO_HOME, EXIT_FAILURE)
             else Crash NullDeref
         | Some dir_to_go \<Rightarrow>
             if chdir_ok w dir_to_go then Return (st, EXIT_SUCCESS)
             else Return (perror st ''cd'', EXIT_FAILURE)))"

definition builtins :: "(string \<times> builtin) list" where
  "builtins =
     [(''exit'', wsh_exit), (''alias'', wsh_alias), (''unalias'', wsh_unalias),
      (''which'', wsh_which), (''path'', wsh_path), (''cd'', wsh_cd),
      (''history'', wsh_history)]"

section \<open>External commands: \<^verbatim>\<open>execute_external_command\<close> (wsh.c, 382-456)\<close>

text \<open>
  The child of line 428 calls \<^verbatim>\<open>execv(full_path, argv)\<close>; the parent waits for it and
  stores its exit status in \<^verbatim>\<open>rc\<close>. The function returns \<^verbatim>\<open>EXIT_SUCCESS\<close> whenever the
  wait succeeded.
\<close>

definition execute_external_command :: "world \<Rightarrow> shell \<Rightarrow> string list \<Rightarrow> (shell \<times> int) outcome" where
  "execute_external_command w st argv =
     (case argv of
        [] \<Rightarrow> Crash AssertFailed
      | command_name # args \<Rightarrow>
          (let direct = is_absolute_or_relative command_name;
               full_path = (if direct then Some command_name
                            else find_executable_path w st command_name)
           in if \<not> direct \<and> full_path = None \<and> (path_env st = None \<or> path_env st = Some [])
              then Return (wsh_warn st EMPTY_PATH, EXIT_FAILURE)
              else
                (case full_path of
                   None \<Rightarrow> Return (wsh_warn st (CMD_NOT_FOUND command_name), EXIT_FAILURE)
                 | Some fp \<Rightarrow>
                     if direct \<and> \<not> access_x w fp
                     then Return (wsh_warn st (CMD_NOT_FOUND command_name), EXIT_FAILURE)
                     else
                       (case fork_res w 0 of
                          None \<Rightarrow> Return (perror st ''fork'', EXIT_FAILURE)
                        | Some pid \<Rightarrow>
                            (let st1 = log_event (log_event st (Forked pid (ChildExec fp argv)))
                                         (WaitCalled pid)
                             in case waitpid_res w pid of
                                  None \<Rightarrow> Return (perror st1 ''waitpid'', EXIT_FAILURE)
                                | Some (Exited c) \<Rightarrow> Return (st1\<lparr>rc := c\<rparr>, EXIT_SUCCESS)
                                | Some NotExited \<Rightarrow>
                                    Return (st1\<lparr>rc := EXIT_FAILURE\<rparr>, EXIT_SUCCESS))))))"

section \<open>Pipelines: \<^verbatim>\<open>execute_segment\<close> and \<^verbatim>\<open>execute_pipeline\<close> (wsh.c, 799-964)\<close>

text \<open>
  \<^verbatim>\<open>execute_segment\<close> runs in the child, on the child's copy \<open>st\<close> of the state, and never
  returns. A builtin runs inside the child, which ends with the builtin's status.
\<close>

definition execute_segment :: "nat \<Rightarrow> world \<Rightarrow> shell \<Rightarrow> string \<Rightarrow> nat \<Rightarrow> nat \<Rightarrow> child" where
  "execute_segment MAX_ARGS w st segment_cmdline in_fd out_fd =
     (case call_parseline MAX_ARGS st segment_cmdline of
        None \<Rightarrow> ChildCrash ArgvOverrun
      | Some (st1, []) \<Rightarrow> ChildExit EXIT_FAILURE
      | Some (st1, command_name # args) \<Rightarrow>
          if in_fd \<noteq> STDIN_FILENO \<and> \<not> dup2_ok w in_fd STDIN_FILENO then ChildExit EXIT_FAILURE
          else if out_fd \<noteq> STDOUT_FILENO \<and> \<not> dup2_ok w out_fd STDOUT_FILENO
          then ChildExit EXIT_FAILURE
          else
            (case map_of builtins command_name of
               Some func \<Rightarrow>
                 (case func w st1 (command_name # args) of
                    Return (st2, exit_code) \<Rightarrow> ChildExit exit_code
                  | Exit code \<Rightarrow> ChildExit code
                  | Crash f \<Rightarrow> ChildCrash f)
             | None \<Rightarrow>
                 (case find_executable_path w st1 command_name of
                    None \<Rightarrow> ChildExit EXIT_FAILURE
                  | Some path_to_exec \<Rightarrow> ChildExec path_to_exec (command_name # args))))"

text \<open>
  \<^verbatim>\<open>for (int j = 0; j < i; j++) kill(pids[j], SIGTERM);\<close> (lines 878, 889, 916).
\<close>

definition kill_all :: "shell \<Rightarrow> nat list \<Rightarrow> shell" where
  "kill_all st pids = st\<lparr>procs := procs st @ map Killed pids\<rparr>"

text \<open>
  The loop of lines 872-910 over the segments before the last: \<open>i\<close> is the position,
  \<open>prev\<close> is \<^verbatim>\<open>prev_pipe_read_fd\<close>, \<open>pids\<close> holds \<^verbatim>\<open>pids[0..i-1]\<close>. \<open>Inl\<close>: a
  \<^verbatim>\<open>pipe\<close> or \<^verbatim>\<open>fork\<close> failed and the function returns \<^verbatim>\<open>EXIT_FAILURE\<close>.
\<close>

fun spawn_loop :: "nat \<Rightarrow> world \<Rightarrow> shell \<Rightarrow> nat \<Rightarrow> nat \<Rightarrow> nat list \<Rightarrow> string list
    \<Rightarrow> shell + (shell \<times> nat \<times> nat list)" where
  "spawn_loop MAX_ARGS w st i prev pids [] = Inr (st, prev, pids)"
| "spawn_loop MAX_ARGS w st i prev pids (seg # segs) =
     (case pipe_res w i of
        None \<Rightarrow> Inl (kill_all (perror st ''pipe'') pids)
      | Some (rd, wr) \<Rightarrow>
          (case fork_res w i of
             None \<Rightarrow> Inl (kill_all (perror st ''fork'') pids)
           | Some pid \<Rightarrow>
               spawn_loop MAX_ARGS w
                 (log_event st (Forked pid (execute_segment MAX_ARGS w st seg prev wr)))
                 (Suc i) rd (pids @ [pid]) segs))"

text \<open>The loop of lines 954-961: wait for the earlier children; \<open>a\<close> is \<^verbatim>\<open>all_success\<close>.\<close>

fun wait_loop :: "world \<Rightarrow> shell \<Rightarrow> int \<Rightarrow> nat list \<Rightarrow> shell \<times> int" where
  "wait_loop w st a [] = (st, a)"
| "wait_loop w st a (pid # pids) =
     (case waitpid_res w pid of
        None \<Rightarrow> wait_loop w (perror (log_event st (WaitCalled pid)) ''waitpid'') EXIT_FAILURE pids
      | Some status \<Rightarrow> wait_loop w (log_event st (WaitCalled pid)) a pids)"

definition execute_pipeline :: "nat \<Rightarrow> world \<Rightarrow> shell \<Rightarrow> string list \<Rightarrow> (shell \<times> int) outcome" where
  "execute_pipeline MAX_ARGS w st segments =
     (case spawn_loop MAX_ARGS w st 0 STDIN_FILENO [] (butlast segments) of
        Inl st' \<Rightarrow> Return (st', EXIT_FAILURE)
      | Inr (st1, prev, pids) \<Rightarrow>
          (case fork_res w (length pids) of
             None \<Rightarrow> Return (kill_all (perror st1 ''fork'') pids, EXIT_FAILURE)
           | Some pid_last \<Rightarrow>
               (let last_child =
                      (if segments = [] then ChildCrash UninitRead
                       else execute_segment MAX_ARGS w st1 (last segments) prev STDOUT_FILENO);
                    st2 = log_event (log_event st1 (Forked pid_last last_child))
                            (WaitCalled pid_last);
                    (st3, all_success) =
                      (case waitpid_res w pid_last of
                         None \<Rightarrow> ((perror st2 ''waitpid'')\<lparr>rc := EXIT_FAILURE\<rparr>, EXIT_FAILURE)
                       | Some (Exited c) \<Rightarrow>
                           (st2\<lparr>rc := c\<rparr>, if c \<noteq> EXIT_SUCCESS then EXIT_FAILURE else EXIT_SUCCESS)
                       | Some NotExited \<Rightarrow> (st2\<lparr>rc := EXIT_FAILURE\<rparr>, EXIT_FAILURE))
                in Return (wait_loop w st3 all_success pids))))"

section \<open>The dispatcher: \<^verbatim>\<open>execute_command\<close> (wsh.c, 461-741)\<close>

text \<open>
  Lines 463-477: a non-empty line is copied (\<^verbatim>\<open>char *temp = strdup(cmdline)\<close>) and,
  \<^verbatim>\<open>if (temp)\<close>, goes to the history unless, without its trailing newline, it
  consists of spaces and tabs only (\<^verbatim>\<open>strspn(temp, " \t") != strlen(temp)\<close>). When the
  copy fails nothing is recorded and the function goes on with the line.
\<close>

definition record_history :: "world \<Rightarrow> shell \<Rightarrow> string \<Rightarrow> shell" where
  "record_history w st cmdline =
     (if cmdline \<noteq> [] then
        (if strdup_cmdline_ok w cmdline then
           (let temp = (if last cmdline = NEWLINE then butlast cmdline else cmdline)
            in if length (takeWhile (\<lambda>c. c = SPACE \<or> c = TABCH) temp) \<noteq> length temp
               then st\<lparr>history_da := da_put (history_da st) cmdline\<rparr>
               else st)
         else st)
      else st)"

text \<open>
  Lines 659-680 (and 576-598): the alias's text, then a space and each of
  \<^verbatim>\<open>argv[1..argc-1]\<close>.
\<close>

definition alias_subst :: "string \<Rightarrow> string list \<Rightarrow> string" where
  "alias_subst alias_cmd argv = alias_cmd @ concat (map (\<lambda>a. SPACE # a) (tl argv))"

text \<open>
  Lines 501-550: the line is cut at each \<^verbatim>\<open>|\<close> while fewer than \<^verbatim>\<open>MAX_ARGS\<close>
  segments are stored; a segment of spaces only ends the function with
  \<^verbatim>\<open>EMPTY_PIPE_SEGMENT\<close> (\<open>None\<close>). The text after the last cut is the last segment
  when there is room for it (line 528); it is empty when a newline or the end follows
  its spaces.
\<close>

function split_segments :: "nat \<Rightarrow> string \<Rightarrow> string list \<Rightarrow> string list option" where
  "split_segments MAX_ARGS segment_start segments =
     (if PIPE \<in> set segment_start \<and> length segments < MAX_ARGS then
        (if dropWhile (\<lambda>x. x = SPACE) (takeWhile (\<lambda>x. x \<noteq> PIPE) segment_start) = [] then None
         else split_segments MAX_ARGS (tl (dropWhile (\<lambda>x. x \<noteq> PIPE) segment_start))
                (segments @ [takeWhile (\<lambda>x. x \<noteq> PIPE) segment_start]))
      else if length segments < MAX_ARGS then
        (let s = dropWhile (\<lambda>x. x = SPACE) segment_start
         in if s = [] \<or> hd s = NEWLINE then None else Some (segments @ [segment_start]))
      else Some segments)"
  by pat_completeness auto
termination
proof (relation "measure (\<lambda>(M, s, segs). length s)")
  show "wf (measure (\<lambda>(M, s, segs). length s))" by simp
next
  fix MAX_ARGS :: nat and segment_start :: string and segments :: "string list"
  assume "PIPE \<in> set segment_start \<and> length segments < MAX_ARGS"
  then have "dropWhile (\<lambda>x. x \<noteq> PIPE) segment_start \<noteq> []"
    by (auto simp: dropWhile_eq_Nil_conv)
  then have "length (tl (dropWhile (\<lambda>x. x \<noteq> PIPE) segment_start)) < length segment_start"
    by (metis length_dropWhile_le length_tl diff_less length_greater_0_conv
        less_le_trans zero_less_one)
  then show "((MAX_ARGS, tl (dropWhile (\<lambda>x. x \<noteq> PIPE) segment_start),
               segments @ [takeWhile (\<lambda>x. x \<noteq> PIPE) segment_start]),
              (MAX_ARGS, segment_start, segments))
             \<in> measure (\<lambda>(M, s, segs). length s)"
    by simp
qed

declare split_segments.simps [simp del]

text \<open>
  The loop of lines 553-633 over the segments. \<open>VOk segs\<close>: every segment passed, and
  \<open>segs\<close> are the segments with each alias replaced (line 605); \<open>VAbort st\<close>: the
  function returns \<^verbatim>\<open>EXIT_FAILURE\<close>; \<open>VCrash\<close>: after the alias was replaced the
  vector is not tested for being empty, and \<^verbatim>\<open>temp_argv[0]\<close>, then \<^verbatim>\<open>NULL\<close>, goes to
  \<^verbatim>\<open>strcmp\<close> (lines 601-611).
\<close>

datatype validation = VOk "string list" | VAbort shell | VCrash fault

fun validate_segments :: "nat \<Rightarrow> world \<Rightarrow> shell \<Rightarrow> string list \<Rightarrow> validation" where
  "validate_segments MAX_ARGS w st [] = VOk []"
| "validate_segments MAX_ARGS w st (seg # segs) =
     (case call_parseline MAX_ARGS st seg of
        None \<Rightarrow> VCrash ArgvOverrun
      | Some (st1, []) \<Rightarrow> VAbort (wsh_warn st1 EMPTY_PIPE_SEGMENT)
      | Some (st1, name # args) \<Rightarrow>
          (case (case hm_get (alias_hm st1) name of
                   None \<Rightarrow> Inr (seg, name)
                 | Some alias_cmd \<Rightarrow>
                     (case call_parseline MAX_ARGS st1 (alias_subst alias_cmd (name # args)) of
                        None \<Rightarrow> Inl ArgvOverrun
                      | Some (st2, []) \<Rightarrow> Inl NullDeref
                      | Some (st2, name' # args') \<Rightarrow>
                          Inr (alias_subst alias_cmd (name # args), name'))) of
             Inl f \<Rightarrow> VCrash f
           | Inr (seg', command_name) \<Rightarrow>
               if command_name \<notin> set builtin_names
                  \<and> find_executable_path w st1 command_name = None
               then VAbort (wsh_warn st1 (CMD_NOT_FOUND command_name))
               else
                 (case validate_segments MAX_ARGS w st1 segs of
                    VOk segs' \<Rightarrow> VOk (seg' # segs')
                  | VAbort st' \<Rightarrow> VAbort st'
                  | VCrash f \<Rightarrow> VCrash f)))"

text \<open>
  Lines 695-732: \<^verbatim>\<open>exit\<close> is handled first, then the other builtins, whose status is
  stored in \<^verbatim>\<open>rc\<close>, then an external command.
\<close>

definition dispatch :: "world \<Rightarrow> shell \<Rightarrow> string list \<Rightarrow> (shell \<times> int) outcome" where
  "dispatch w st argv =
     (case argv of
        [] \<Rightarrow> Crash NullDeref
      | command # args \<Rightarrow>
          if command = ''exit'' then
            (if length argv > 1 then Return (wsh_warn st INVALID_EXIT_USE, EXIT_FAILURE)
             else clean_exit (rc st))
          else
            (case map_of builtins command of
               Some func \<Rightarrow>
                 (case func w st argv of
                    Return (st', r) \<Rightarrow>
                      Return (st'\<lparr>rc := r\<rparr>, if r = EXIT_SUCCESS then EXIT_SUCCESS else EXIT_FAILURE)
                  | Exit code \<Rightarrow> Exit code
                  | Crash f \<Rightarrow> Crash f)
             | None \<Rightarrow> execute_external_command w st argv))"

definition execute_command :: "nat \<Rightarrow> world \<Rightarrow> shell \<Rightarrow> string \<Rightarrow> (shell \<times> int) outcome" where
  "execute_command MAX_ARGS w st0 cmdline =
     (let st = record_history w st0 cmdline
      in if PIPE \<in> set cmdline then
           (case split_segments MAX_ARGS cmdline [] of
              None \<Rightarrow> Return (wsh_warn st EMPTY_PIPE_SEGMENT, EXIT_FAILURE)
            | Some segments \<Rightarrow>
                (case validate_segments MAX_ARGS w st segments of
                   VCrash f \<Rightarrow> Crash f
                 | VAbort st' \<Rightarrow> Return (st', EXIT_FAILURE)
                 | VOk segments' \<Rightarrow> execute_pipeline MAX_ARGS w st segments'))
         else
           (case call_parseline MAX_ARGS st cmdline of
              None \<Rightarrow> Crash ArgvOverrun
            | Some (st1, []) \<Rightarrow> Return (st1, EXIT_SUCCESS)
            | Some (st1, command # args) \<Rightarrow>
                (case hm_get (alias_hm st1) command of
                   None \<Rightarrow> dispatch w st1 (command # args)
                 | Some alias_cmd \<Rightarrow>
                     (case call_parseline MAX_ARGS st1 (alias_subst alias_cmd (command # args)) of
                        None \<Rightarrow> Crash ArgvOverrun
                      | Some (st2, []) \<Rightarrow> Return (st2, EXIT_SUCCESS)
                      | Some (st2, argv') \<Rightarrow> dispatch w st2 argv'))))"

section \<open>The two modes and \<^verbatim>\<open>main\<close> (wsh.c, 973-1063)\<close>

text \<open>
  The state \<^verbatim>\<open>main\<close> starts from: \<^verbatim>\<open>rc\<close> is a zero-initialised global, the table and
  the history are empty, and \<^verbatim>\<open>PATH\<close> is set to \<^verbatim>\<open>/bin:/usr/bin\<close> (lines 975-977).
\<close>

definition shell_init :: shell where
  "shell_init = \<lparr>rc = 0, alias_hm = [], history_da = [], path_env = Some ''/bin:/usr/bin'',
                 stderr_log = [], stdout_log = [], procs = []\<rparr>"

text \<open>
  The input is the list of lines \<^verbatim>\<open>fgets\<close> returns, each with the world it is executed
  in. \<^verbatim>\<open>interactive_main\<close> (1009-1031) leaves through \<^verbatim>\<open>clean_exit(rc)\<close> at the end of
  the input.
\<close>

fun interactive_main :: "nat \<Rightarrow> shell \<Rightarrow> (world \<times> string) list \<Rightarrow> (shell \<times> int) outcome" where
  "interactive_main MAX_ARGS st [] = clean_exit (rc st)"
| "interactive_main MAX_ARGS st ((w, cmdline) # rest) =
     (case execute_command MAX_ARGS w st cmdline of
        Return (st', result) \<Rightarrow> interactive_main MAX_ARGS st' rest
      | Exit code \<Rightarrow> Exit code
      | Crash f \<Rightarrow> Crash f)"

text \<open>
  \<^verbatim>\<open>batch_main\<close> (1040-1063): \<open>None\<close> is a script that cannot be opened. The loop keeps
  the value \<^verbatim>\<open>execute_command\<close> returned for the last line and returns it.
\<close>

fun batch_loop :: "nat \<Rightarrow> shell \<Rightarrow> int \<Rightarrow> (world \<times> string) list \<Rightarrow> (shell \<times> int) outcome" where
  "batch_loop MAX_ARGS st result [] = Return (st, result)"
| "batch_loop MAX_ARGS st result ((w, cmdline) # rest) =
     (case execute_command MAX_ARGS w st cmdline of
        Return (st', result') \<Rightarrow> batch_loop MAX_ARGS st' result' rest
      | Exit code \<Rightarrow> Exit code
      | Crash f \<Rightarrow> Crash f)"

definition batch_main :: "nat \<Rightarrow> shell \<Rightarrow> (world \<times> string) list option \<Rightarrow> (shell \<times> int) outcome" where
  "batch_main MAX_ARGS st script_file =
     (case script_file of
        None \<Rightarrow> Return ((perror st ''fopen'')\<lparr>rc := EXIT_FAILURE\<rparr>, EXIT_FAILURE)
      | Some script \<Rightarrow> batch_loop MAX_ARGS st EXIT_SUCCESS script)"

text \<open>How the shell is started: no argument, a script, or more than one argument.\<close>

datatype invocation =
    Interactive "(world \<times> string) list"
  | Batch "(world \<times> string) list option"
  | TooManyArguments

text \<open>
  \<^verbatim>\<open>main\<close> (973-999). In batch mode line 991 stores the value of \<^verbatim>\<open>batch_main\<close> in
  \<^verbatim>\<open>rc\<close>, and \<^verbatim>\<open>main\<close> returns \<^verbatim>\<open>rc\<close>.
\<close>

definition main :: "nat \<Rightarrow> invocation \<Rightarrow> (shell \<times> int) outcome" where
  "main MAX_ARGS how =
     (case how of
        TooManyArguments \<Rightarrow> Return (wsh_warn shell_init INVALID_WSH_USE, EXIT_FAILURE)
      | Interactive input \<Rightarrow>
          (case interactive_main MAX_ARGS shell_init input of
             Return (st, r) \<Rightarrow> Return (st, rc st)
           | Exit code \<Rightarrow> Exit code
           | Crash f \<Rightarrow> Crash f)
      | Batch script_file \<Rightarrow>
          (case batch_main MAX_ARGS shell_init script_file of
             Return (st, r) \<Rightarrow> Return (st\<lparr>rc := r\<rparr>, r)
           | Exit code \<Rightarrow> Exit code
           | Crash f \<Rightarrow> Crash f))"

text \<open>The exit code of the process: the value \<^verbatim>\<open>main\<close> returns or \<^verbatim>\<open>exit\<close> is given.\<close>

definition exit_code :: "(shell \<times> int) outcome \<Rightarrow> int option" where
  "exit_code r = (case r of Return (st, c) \<Rightarrow> Some c | Exit c \<Rightarrow> Some c | Crash f \<Rightarrow> None)"

section \<open>Lines that end in an unterminated quote\<close>

text \<open>
  The text the tokenizer consumes for one token: a plain token is a non-empty run
  without a space that does not begin with a quote, followed by one or more spaces; a
  quoted token stands between two quotes and may be followed by spaces. \<open>render\<close> is
  that text, \<open>piece_text\<close> the token.
\<close>

datatype piece = Plain string nat | Quoted string nat

fun piece_text :: "piece \<Rightarrow> string" where
  "piece_text (Plain t k) = t"
| "piece_text (Quoted t k) = t"

fun render :: "piece \<Rightarrow> string" where
  "render (Plain t k) = t @ replicate (Suc k) SPACE"
| "render (Quoted t k) = QUOTE # t @ QUOTE # replicate k SPACE"

fun well_formed :: "piece \<Rightarrow> bool" where
  "well_formed (Plain t k) = (t \<noteq> [] \<and> SPACE \<notin> set t \<and> hd t \<noteq> QUOTE)"
| "well_formed (Quoted t k) = (QUOTE \<notin> set t)"

text \<open>
  A world in which nothing is executable, \<^verbatim>\<open>HOME\<close> is unset and \<^verbatim>\<open>chdir\<close> fails;
  every \<^verbatim>\<open>pipe\<close>, \<^verbatim>\<open>fork\<close>, \<^verbatim>\<open>dup2\<close>, \<^verbatim>\<open>setenv\<close>, \<^verbatim>\<open>waitpid\<close> and \<^verbatim>\<open>strdup\<close>
  succeeds, and every child is reported to have exited with status 0.
\<close>

definition bare_world :: world where
  "bare_world = \<lparr>access_x = (\<lambda>p. False), home_env = None, chdir_ok = (\<lambda>d. False),
     setenv_ok = (\<lambda>v. True), pipe_res = (\<lambda>i. Some (3 + 2 * i, 4 + 2 * i)),
     fork_res = (\<lambda>i. Some (100 + i)), dup2_ok = (\<lambda>a b. True),
     waitpid_res = (\<lambda>p. Some (Exited 0)),
     strdup_cmdline_ok = (\<lambda>s. True), strdup_name_ok = (\<lambda>s. True)\<rparr>"

section \<open>The path resolver, in the words of the specification\<close>

text \<open>
  Following the spec's words (section 4.4): a name that starts with \<^verbatim>\<open>/\<close> or
  \<^verbatim>\<open>./\<close> is checked directly for execute permission; otherwise the search path is
  split on \<^verbatim>\<open>:\<close>, each directory is joined with the name and checked in order, and the
  first match wins; an empty or unset search path yields not-found. The directories
  are the non-empty fields of the search path.
\<close>

definition resolve_spec :: "world \<Rightarrow> string option \<Rightarrow> string \<Rightarrow> string option" where
  "resolve_spec w search_path name =
     (if take 1 name = ''/'' \<or> take 2 name = ''./'' then
        (if access_x w name then Some name else None)
      else
        (case search_path of
           None \<Rightarrow> None
         | Some p \<Rightarrow>
             if p = [] then None
             else List.find (access_x w)
                    (map (\<lambda>dir. dir @ ''/'' @ name)
                       (filter (\<lambda>dir. dir \<noteq> []) (split_fields COLON p)))))"

text \<open>
  A world whose only executables are the file \<^verbatim>\<open>.x\<close> of the working directory and the
  file \<^verbatim>\<open>x\<close> of its parent, under the names \<^verbatim>\<open>.x\<close> and \<^verbatim>\<open>../x\<close>.
\<close>

definition dot_names_world :: world where
  "dot_names_world = bare_world\<lparr>access_x := (\<lambda>p. p = ''.x'' \<or> p = ''../x'')\<rparr>"

section \<open>Reading the log of process-management calls\<close>

text \<open>
  The processes forked, signalled and waited for, in the order of the calls.
\<close>

fun forked_pids :: "event list \<Rightarrow> nat list" where
  "forked_pids [] = []"
| "forked_pids (Forked p c # es) = p # forked_pids es"
| "forked_pids (Killed p # es) = forked_pids es"
| "forked_pids (WaitCalled p # es) = forked_pids es"

fun killed_pids :: "event list \<Rightarrow> nat list" where
  "killed_pids [] = []"
| "killed_pids (Forked p c # es) = killed_pids es"
| "killed_pids (Killed p # es) = p # killed_pids es"
| "killed_pids (WaitCalled p # es) = killed_pids es"

fun waited_pids :: "event list \<Rightarrow> nat list" where
  "waited_pids [] = []"
| "waited_pids (Forked p c # es) = waited_pids es"
| "waited_pids (Killed p # es) = waited_pids es"
| "waited_pids (WaitCalled p # es) = p # waited_pids es"

text \<open>
  Every \<^verbatim>\<open>pipe\<close> and \<^verbatim>\<open>fork\<close> of a pipeline of \<open>n\<close> segments succeeds: a pipe before
  each segment but the last, a process for each segment.
\<close>

definition all_created :: "world \<Rightarrow> nat \<Rightarrow> bool" where
  "all_created w n =
     (list_all (\<lambda>i. pipe_res w i \<noteq> None) [0..<n - 1] \<and> list_all (\<lambda>i. fork_res w i \<noteq> None) [0..<n])"

text \<open>The process of the segment at position \<open>i\<close>, when its \<^verbatim>\<open>fork\<close> succeeded.\<close>

definition pid_of :: "world \<Rightarrow> nat \<Rightarrow> nat" where
  "pid_of w i = (case fork_res w i of Some pid \<Rightarrow> pid | None \<Rightarrow> 0)"

text \<open>A world in which the \<^verbatim>\<open>fork\<close> for the second segment fails.\<close>

definition second_fork_fails :: world where
  "second_fork_fails = bare_world\<lparr>fork_res := (\<lambda>i. if i = 1 then None else Some (100 + i))\<rparr>"

text \<open>
  A world for \<^verbatim>\<open>false | true | false\<close>: the processes of the first and the third
  segment end with status 1, the process of the second with status 0.
\<close>

definition false_true_false :: world where
  "false_true_false =
     bare_world\<lparr>waitpid_res := (\<lambda>p. Some (Exited (if p = 101 then 0 else 1)))\<rparr>"

section \<open>Worlds for the examples\<close>

text \<open>
  A world in which \<^verbatim>\<open>/bin/false\<close> is the only executable and every process ends with
  status 1, and a world in which \<^verbatim>\<open>/bin/echo\<close> is the only executable.
\<close>

definition false_world :: world where
  "false_world = bare_world\<lparr>access_x := (\<lambda>p. p = ''/bin/false''),
                              waitpid_res := (\<lambda>p. Some (Exited 1))\<rparr>"

definition echo_world :: world where
  "echo_world = bare_world\<lparr>access_x := (\<lambda>p. p = ''/bin/echo'')\<rparr>"

section \<open>Pipeline lines, segment by segment\<close>

text \<open>
  The segments of a line are its fields between the pipe separators. A segment before
  a separator is empty when it holds spaces only; the last one also when a newline
  follows its spaces.
\<close>

definition blank_segment :: "string \<Rightarrow> bool" where
  "blank_segment s = (dropWhile (\<lambda>x. x = SPACE) s = [])"

definition blank_last_segment :: "string \<Rightarrow> bool" where
  "blank_last_segment s =
     (dropWhile (\<lambda>x. x = SPACE) s = [] \<or> hd (dropWhile (\<lambda>x. x = SPACE) s) = NEWLINE)"

definition has_empty_segment :: "string \<Rightarrow> bool" where
  "has_empty_segment line =
     (list_ex blank_segment (butlast (split_fields PIPE line))
      \<or> blank_last_segment (last (split_fields PIPE line)))"

text \<open>
  The head token of a segment after alias resolution: the first token of the segment,
  or, when that names an alias, the first token of the substituted text. \<open>None\<close>:
  there is no such token.
\<close>

definition segment_head :: "nat \<Rightarrow> shell \<Rightarrow> string \<Rightarrow> string option" where
  "segment_head MAX_ARGS st seg =
     (case parseline_no_subst MAX_ARGS (Some seg) of
        Parsed (name # args) \<Rightarrow>
          (case hm_get (alias_hm st) name of
             None \<Rightarrow> Some name
           | Some alias_cmd \<Rightarrow>
               (case parseline_no_subst MAX_ARGS (Some (alias_subst alias_cmd (name # args))) of
                  Parsed (h # rest) \<Rightarrow> Some h
                | _ \<Rightarrow> None))
      | _ \<Rightarrow> None)"

text \<open>The head token of the segment is neither a builtin nor a resolvable executable.\<close>

definition unresolvable :: "nat \<Rightarrow> world \<Rightarrow> shell \<Rightarrow> string \<Rightarrow> bool" where
  "unresolvable MAX_ARGS w st seg =
     (case segment_head MAX_ARGS st seg of
        None \<Rightarrow> False
      | Some h \<Rightarrow> h \<notin> set builtin_names \<and> find_executable_path w st h = None)"

text \<open>
  The check of a segment (lines 553-633) stays within defined behaviour: the segment
  has no more tokens than the argument array holds, and, when its first token names an
  alias, the substituted text has at least one token, no unterminated quote and no more
  tokens than the array holds.
\<close>

definition checkable :: "nat \<Rightarrow> shell \<Rightarrow> string \<Rightarrow> bool" where
  "checkable MAX_ARGS st seg =
     (case parseline_no_subst MAX_ARGS (Some seg) of
        ArgvOverflow \<Rightarrow> False
      | MissingQuote fs \<Rightarrow> True
      | Parsed [] \<Rightarrow> True
      | Parsed (name # args) \<Rightarrow>
          (case hm_get (alias_hm st) name of
             None \<Rightarrow> True
           | Some alias_cmd \<Rightarrow>
               (case parseline_no_subst MAX_ARGS (Some (alias_subst alias_cmd (name # args))) of
                  Parsed (h # rest) \<Rightarrow> True
                | _ \<Rightarrow> False)))"

text \<open>A world in which \<^verbatim>\<open>/bin/x\<close> is the only executable.\<close>

definition x_world :: world where
  "x_world = bare_world\<lparr>access_x := (\<lambda>p. p = ''/bin/x'')\<rparr>"

section \<open>A world without memory for the copy of the line\<close>

text \<open>
  A world in which the copy of the command line at the start of \<^verbatim>\<open>execute_command\<close>
  (\<^verbatim>\<open>strdup\<close>, line 465) cannot be allocated; everything else is as in \<open>bare_world\<close>.
\<close>

definition copy_fails_world :: world where
  "copy_fails_world = bare_world\<lparr>strdup_cmdline_ok := (\<lambda>s. False)\<rparr>"

section \<open>The tokenizer and the argument bound\<close>

lemma tokenize_loop_words:
  "tokenize_loop M (concat (replicate k ''a '')) acc =
     (if length acc + k \<le> M then Parsed (acc @ replicate k ''a'') else ArgvOverflow)"
proof (induction k arbitrary: acc)
  case 0
  show ?case by (simp add: tokenize_loop.simps)
next
  case (Suc k)
  have drop: "dropWhile (\<lambda>x. x = SPACE) (concat (replicate k ''a '')) = concat (replicate k ''a '')"
    by (cases k) simp_all
  show ?case
    by (subst tokenize_loop.simps) (simp add: drop Suc.IH replicate_append_same)
qed

text \<open>
  C5 (the code does not do what the claim says). The claim: the tokenizer's count never
  exceeds the fixed maximum, and a line with more tokens is rejected as a parse error,
  with no out-of-bounds write. The tokenizer has no test of the count: for every value
  of \<^verbatim>\<open>MAX_ARGS\<close>, the line of \<^verbatim>\<open>MAX_ARGS + 1\<close> one-letter tokens is not rejected; all
  its tokens are stored, and the store of the closing \<^verbatim>\<open>NULL\<close> at index
  \<^verbatim>\<open>MAX_ARGS + 1\<close> falls outside the caller's array of \<^verbatim>\<open>MAX_ARGS + 1\<close> slots.
\<close>

theorem parseline_no_subst_overruns_argv:
  "parseline_no_subst MAX_ARGS (Some (concat (replicate MAX_ARGS ''a '') @ ''a'' @ [NEWLINE]))
     = ArgvOverflow"
proof -
  have "concat (replicate MAX_ARGS ''a '') @ ''a '' = concat (replicate (Suc MAX_ARGS) ''a '')"
    by (induction MAX_ARGS) simp_all
  moreover have "dropWhile (\<lambda>x. x = SPACE) (concat (replicate (Suc MAX_ARGS) ''a ''))
      = concat (replicate (Suc MAX_ARGS) ''a '')"
    by simp
  ultimately show ?thesis
    unfolding parseline_no_subst_def
    by (simp add: butlast_append tokenize_loop_words del: replicate.simps concat.simps)
qed

section \<open>The alias builtin with one argument\<close>

text \<open>
  C9 (the code does not do what the claim says). The claim: for \<^verbatim>\<open>alias NAME\<close>
  (\<^verbatim>\<open>argc == 2\<close>) the builtin reports a usage error and returns failure, and the
  \<^verbatim>\<open>NULL\<close> at index 2 is never dereferenced. In the code the test of line 108 hands
  \<^verbatim>\<open>argv[2]\<close>, which is that \<^verbatim>\<open>NULL\<close>, to \<^verbatim>\<open>strcmp\<close>: for every state and every
  name the call is undefined behaviour, and no usage error is reported.
\<close>

theorem wsh_alias_one_argument_null_deref:
  "wsh_alias w st [''alias'', name] = Crash NullDeref"
  by (simp add: wsh_alias_def)

section \<open>Unterminated quotes\<close>

lemma takeWhile_until: "c \<notin> set t \<Longrightarrow> takeWhile (\<lambda>x. x \<noteq> c) (t @ c # r) = t"
  by (induction t) auto

lemma dropWhile_until: "c \<notin> set t \<Longrightarrow> dropWhile (\<lambda>x. x \<noteq> c) (t @ c # r) = c # r"
  by (induction t) auto

lemma dropWhile_spaces_append:
  "r \<noteq> [] \<Longrightarrow> hd r \<noteq> SPACE \<Longrightarrow> dropWhile (\<lambda>x. x = SPACE) (replicate k SPACE @ r) = r"
  by (induction k) (simp_all add: dropWhile_eq_self_iff)

lemma render_starts:
  "well_formed p \<Longrightarrow> render p @ r \<noteq> [] \<and> hd (render p @ r) \<noteq> SPACE"
  by (cases p) (auto simp: hd_append dest: hd_in_set)

lemma unterminated_starts:
  "list_all well_formed ps \<Longrightarrow>
   concat (map render ps) @ QUOTE # r \<noteq> [] \<and> hd (concat (map render ps) @ QUOTE # r) \<noteq> SPACE"
  by (cases ps) (use render_starts in \<open>auto simp del: render.simps\<close>)

lemma tokenize_loop_plain:
  assumes "t \<noteq> []" "SPACE \<notin> set t" "hd t \<noteq> QUOTE" "r \<noteq> []" "hd r \<noteq> SPACE" "length acc \<le> M"
  shows "tokenize_loop M (t @ replicate (Suc k) SPACE @ r) acc = tokenize_loop M r (acc @ [t])"
proof -
  obtain c q where t: "t = c # q" using assms(1) by (cases t) auto
  have tw: "takeWhile (\<lambda>x. x \<noteq> SPACE) (t @ replicate (Suc k) SPACE @ r) = t"
    using assms(2) by (simp add: takeWhile_until)
  have dw: "dropWhile (\<lambda>x. x \<noteq> SPACE) (t @ replicate (Suc k) SPACE @ r) = replicate (Suc k) SPACE @ r"
    using assms(2) by (simp add: dropWhile_until)
  have "tl (replicate (Suc k) SPACE @ r) = replicate k SPACE @ r" by simp
  then have rest: "dropWhile (\<lambda>x. x = SPACE) (tl (dropWhile (\<lambda>x. x \<noteq> SPACE) (t @ replicate (Suc k) SPACE @ r))) = r"
    using dropWhile_spaces_append[OF assms(4,5)] dw by simp
  have sp: "SPACE \<in> set (t @ replicate (Suc k) SPACE @ r)" by simp
  have hdq: "c \<noteq> QUOTE" using assms(3) t by simp
  show ?thesis
    by (subst tokenize_loop.simps) (use sp hdq assms(6) rest tw t in simp)
qed

lemma tokenize_loop_quoted:
  assumes "QUOTE \<notin> set t" "r \<noteq> []" "hd r \<noteq> SPACE" "length acc \<le> M"
  shows "tokenize_loop M (QUOTE # t @ QUOTE # replicate k SPACE @ r) acc = tokenize_loop M r (acc @ [t])"
proof -
  have tw: "takeWhile (\<lambda>x. x \<noteq> QUOTE) (t @ QUOTE # replicate k SPACE @ r) = t"
    using assms(1) by (simp add: takeWhile_until)
  have dw: "dropWhile (\<lambda>x. x \<noteq> QUOTE) (t @ QUOTE # replicate k SPACE @ r) = QUOTE # replicate k SPACE @ r"
    using assms(1) by (simp add: dropWhile_until)
  have rest: "dropWhile (\<lambda>x. x = SPACE) (tl (dropWhile (\<lambda>x. x \<noteq> QUOTE) (t @ QUOTE # replicate k SPACE @ r))) = r"
    using dropWhile_spaces_append[OF assms(2,3)] dw by simp
  have q: "QUOTE \<in> set (t @ QUOTE # replicate k SPACE @ r)" by simp
  show ?thesis
    by (subst tokenize_loop.simps) (use q assms(4) rest tw in simp)
qed

lemma tokenize_loop_unterminated:
  "list_all well_formed ps \<Longrightarrow> QUOTE \<notin> set r \<Longrightarrow> length acc + length ps \<le> Suc M \<Longrightarrow>
   tokenize_loop M (concat (map render ps) @ QUOTE # r) acc = MissingQuote (acc @ map piece_text ps)"
proof (induction ps arbitrary: acc)
  case Nil
  then show ?case by (subst tokenize_loop.simps) simp
next
  case (Cons p ps)
  let ?R = "concat (map render ps) @ QUOTE # r"
  have R: "?R \<noteq> []" "hd ?R \<noteq> SPACE"
    using unterminated_starts[of ps r] Cons.prems(1) by simp_all
  have len: "length acc \<le> M" using Cons.prems(3) by simp
  have IH: "tokenize_loop M ?R (acc @ [piece_text p]) = MissingQuote ((acc @ [piece_text p]) @ map piece_text ps)"
    using Cons.IH[of "acc @ [piece_text p]"] Cons.prems by simp
  show ?case
  proof (cases p)
    case (Plain t k)
    then have "tokenize_loop M (concat (map render (p # ps)) @ QUOTE # r) acc
        = tokenize_loop M ?R (acc @ [t])"
      using tokenize_loop_plain[of t ?R acc M k] Cons.prems(1) R len by simp
    then show ?thesis using IH Plain by simp
  next
    case (Quoted t k)
    then have "tokenize_loop M (concat (map render (p # ps)) @ QUOTE # r) acc
        = tokenize_loop M ?R (acc @ [t])"
      using tokenize_loop_quoted[of t ?R acc M k] Cons.prems(1) R len by simp
    then show ?thesis using IH Quoted by simp
  qed
qed

lemma buffer_of_unterminated:
  assumes "QUOTE \<notin> set r"
  shows "\<exists>r'. QUOTE \<notin> set r' \<and>
     (if pre @ QUOTE # r \<noteq> [] \<and> last (pre @ QUOTE # r) = NEWLINE
      then butlast (pre @ QUOTE # r) @ [SPACE] else (pre @ QUOTE # r) @ [SPACE]) = pre @ QUOTE # r'"
proof (cases "r \<noteq> [] \<and> last r = NEWLINE")
  case True
  then have "butlast (pre @ QUOTE # r) @ [SPACE] = pre @ QUOTE # (butlast r @ [SPACE])"
    by (simp add: butlast_append)
  moreover have "QUOTE \<notin> set (butlast r @ [SPACE])"
    using assms by (auto dest: in_set_butlastD)
  ultimately show ?thesis using True by (intro exI[of _ "butlast r @ [SPACE]"]) simp
next
  case False
  then have "last (pre @ QUOTE # r) \<noteq> NEWLINE" by auto
  then show ?thesis using assms by (intro exI[of _ "r @ [SPACE]"]) simp
qed

text \<open>
  C7, as amended. The claim as stated (every line that contains a single quote with no
  closing quote is rejected) fails: a quote is an opening quote only where a token
  begins. What holds: when the tokens of a line are followed by a token that begins with
  a quote after which the line has no further quote, tokenization stops at that quote:
  the tokens produced so far, and only they, are freed, the diagnostic is printed and
  \<^verbatim>\<open>rc\<close> is set, the count is 0, and on a line without a pipe nothing is executed.
  (The tokens before the quote are at most \<^verbatim>\<open>MAX_ARGS + 1\<close>, the slots of the array.)
\<close>

theorem unterminated_quote_aborts_parse:
  assumes "list_all well_formed ps" and "QUOTE \<notin> set r" and "length ps \<le> Suc MAX_ARGS"
  shows "parseline_no_subst MAX_ARGS (Some (replicate j SPACE @ concat (map render ps) @ QUOTE # r))
           = MissingQuote (map piece_text ps)
       \<and> argc_of (parseline_no_subst MAX_ARGS
            (Some (replicate j SPACE @ concat (map render ps) @ QUOTE # r))) = 0
       \<and> call_parseline MAX_ARGS st (replicate j SPACE @ concat (map render ps) @ QUOTE # r)
           = Some (wsh_warn st MISSING_CLOSING_QUOTE, [])
       \<and> (PIPE \<notin> set (replicate j SPACE @ concat (map render ps) @ QUOTE # r) \<longrightarrow>
            execute_command MAX_ARGS w st (replicate j SPACE @ concat (map render ps) @ QUOTE # r)
              = Return (wsh_warn (record_history w st
                   (replicate j SPACE @ concat (map render ps) @ QUOTE # r))
                   MISSING_CLOSING_QUOTE, EXIT_SUCCESS))"
proof -
  let ?pre = "replicate j SPACE @ concat (map render ps)"
  obtain r' where r': "QUOTE \<notin> set r'"
    "(if ?pre @ QUOTE # r \<noteq> [] \<and> last (?pre @ QUOTE # r) = NEWLINE
      then butlast (?pre @ QUOTE # r) @ [SPACE] else (?pre @ QUOTE # r) @ [SPACE]) = ?pre @ QUOTE # r'"
    using buffer_of_unterminated[OF assms(2), of ?pre] by blast
  have "dropWhile (\<lambda>x. x = SPACE) (?pre @ QUOTE # r') = concat (map render ps) @ QUOTE # r'"
    using dropWhile_spaces_append[of "concat (map render ps) @ QUOTE # r'" j]
      unterminated_starts[OF assms(1), of r'] by simp
  moreover have "tokenize_loop MAX_ARGS (concat (map render ps) @ QUOTE # r') []
      = MissingQuote (map piece_text ps)"
    using tokenize_loop_unterminated[OF assms(1) r'(1), of "[]" MAX_ARGS] assms(3) by simp
  ultimately have parse: "parseline_no_subst MAX_ARGS (Some (?pre @ QUOTE # r))
      = MissingQuote (map piece_text ps)"
    unfolding parseline_no_subst_def using r'(2) by (simp only: option.case Let_def)
  then have call: "\<And>s. call_parseline MAX_ARGS s (?pre @ QUOTE # r)
      = Some (wsh_warn s MISSING_CLOSING_QUOTE, [])"
    by (simp add: call_parseline_def)
  have "PIPE \<notin> set (?pre @ QUOTE # r) \<Longrightarrow>
      execute_command MAX_ARGS w st (?pre @ QUOTE # r)
        = Return (wsh_warn (record_history w st (?pre @ QUOTE # r)) MISSING_CLOSING_QUOTE, EXIT_SUCCESS)"
    unfolding execute_command_def Let_def by (simp only: call if_False option.case prod.case list.case)
  then show ?thesis
    using parse call by (simp add: argc_of_def)
qed

theorem unterminated_quote_aborts_parse_witness:
  "list_all well_formed [Plain ''echo'' 0] \<and> QUOTE \<notin> set (''abc'' @ [NEWLINE]) \<and>
   length [Plain ''echo'' 0] \<le> Suc 128 \<and>
   parseline_no_subst 128 (Some (''echo '' @ [QUOTE] @ ''abc'' @ [NEWLINE])) = MissingQuote [''echo''] \<and>
   argc_of (parseline_no_subst 128 (Some (''echo '' @ [QUOTE] @ ''abc'' @ [NEWLINE]))) = 0 \<and>
   execute_command 128 bare_world shell_init (''echo '' @ [QUOTE] @ ''abc'' @ [NEWLINE])
     = Return (wsh_warn (record_history bare_world shell_init (''echo '' @ [QUOTE] @ ''abc'' @ [NEWLINE]))
         MISSING_CLOSING_QUOTE, EXIT_SUCCESS)"
  using unterminated_quote_aborts_parse [of "[Plain ''echo'' 0]" "''abc'' @ [NEWLINE]" 128 0
      shell_init bare_world]
  by (simp add: argc_of_def)

text \<open>
  The counterexample to C7 as stated: the line \<^verbatim>\<open>echo it's\<close> contains a single quote
  and no closing quote, and tokenization does not abort: it yields two arguments, the
  second of them \<^verbatim>\<open>it's\<close>, and no diagnostic.
\<close>

theorem quote_inside_token_counterexample:
  "parseline_no_subst 128 (Some (''echo it'' @ [QUOTE] @ ''s'' @ [NEWLINE]))
     = Parsed [''echo'', ''it'' @ [QUOTE] @ ''s'']
   \<and> argc_of (parseline_no_subst 128 (Some (''echo it'' @ [QUOTE] @ ''s'' @ [NEWLINE]))) = 2
   \<and> count_list (''echo it'' @ [QUOTE] @ ''s'' @ [NEWLINE]) QUOTE = 1"
  by code_simp

section \<open>Path resolution\<close>

lemma search_dirs_find:
  "search_dirs w dirs name = List.find (access_x w) (map (\<lambda>dir. dir @ ''/'' @ name) dirs)"
  by (induction dirs) simp_all

lemma is_absolute_or_relative_prefix:
  "is_absolute_or_relative name = (take 1 name = ''/'' \<or> take 2 name = ''./'')"
proof (cases name)
  case Nil
  then show ?thesis by simp
next
  case (Cons c cs)
  then show ?thesis by (cases cs) auto
qed

text \<open>
  \<^verbatim>\<open>find_executable_path\<close> resolves a name as the specification says, with one case
  apart: a name that starts with \<^verbatim>\<open>/\<close> or \<^verbatim>\<open>./\<close> and is executable is reported as
  not found when the copy of line 752 cannot be allocated.
\<close>

lemma find_executable_path_rule:
  "find_executable_path w st name =
     (if is_absolute_or_relative name \<and> access_x w name \<and> \<not> strdup_name_ok w name then None
      else resolve_spec w (path_env st) name)"
  unfolding find_executable_path_def resolve_spec_def
  by (cases "path_env st")
     (simp_all add: is_absolute_or_relative_prefix search_dirs_find strtok_all_def)

text \<open>
  The path candidate of \<^verbatim>\<open>which\<close> follows the rule of the specification except for
  the names that start with \<^verbatim>\<open>.\<close> and not with \<^verbatim>\<open>./\<close>: those it checks directly,
  without a search.
\<close>

lemma which_full_path_rule:
  "which_full_path w st name =
     (if take 1 name = ''.'' \<and> take 2 name \<noteq> ''./''
      then (if access_x w name then Some name else None)
      else resolve_spec w (path_env st) name)"
proof (cases name)
  case Nil
  then show ?thesis
    unfolding which_full_path_def resolve_spec_def
    by (cases "path_env st") (simp_all add: search_dirs_find strtok_all_def)
next
  case (Cons c cs)
  then show ?thesis
    unfolding which_full_path_def resolve_spec_def
    by (cases "path_env st"; cases cs)
       (auto simp add: search_dirs_find strtok_all_def)
qed

text \<open>
  C8 (the code does not do what the claim says). The claim: the path candidate of
  \<^verbatim>\<open>which\<close> follows the rule of the resolver, which checks a name directly exactly
  when it starts with \<^verbatim>\<open>/\<close> or \<^verbatim>\<open>./\<close>. It does not: \<^verbatim>\<open>wsh_which\<close> tests
  \<^verbatim>\<open>name[0] == '.' || name[0] == '/'\<close> (line 179). With \<^verbatim>\<open>../x\<close> and \<^verbatim>\<open>.x\<close>
  executable relative to the working directory and absent from the directories of the
  search path, \<^verbatim>\<open>which ../x\<close> and
  \<^verbatim>\<open>which .x\<close> succeed and print the name as its own path, while the lines \<^verbatim>\<open>../x\<close>
  and \<^verbatim>\<open>.x\<close> are answered with the command-not-found diagnostic, return failure and
  start no process: \<^verbatim>\<open>which\<close> reports as found a command the shell cannot run. The
  path candidate of \<^verbatim>\<open>which\<close> is the name itself where \<^verbatim>\<open>find_executable_path\<close>
  finds nothing.
\<close>

theorem which_checks_dot_names_directly:
  "(case execute_command 128 dot_names_world shell_init (''which ../x'' @ [NEWLINE]) of
      Return (st, r) \<Rightarrow>
        r = EXIT_SUCCESS \<and> stdout_log st = [WHICH_EXTERNAL ''../x'' ''../x''] \<and> stderr_log st = []
    | Exit c \<Rightarrow> False
    | Crash f \<Rightarrow> False)
   \<and> (case execute_command 128 dot_names_world shell_init (''../x'' @ [NEWLINE]) of
      Return (st, r) \<Rightarrow>
        r = EXIT_FAILURE \<and> stderr_log st = [CMD_NOT_FOUND ''../x''] \<and> procs st = []
    | Exit c \<Rightarrow> False
    | Crash f \<Rightarrow> False)
   \<and> (case execute_command 128 dot_names_world shell_init (''which .x'' @ [NEWLINE]) of
      Return (st, r) \<Rightarrow>
        r = EXIT_SUCCESS \<and> stdout_log st = [WHICH_EXTERNAL ''.x'' ''.x''] \<and> stderr_log st = []
    | Exit c \<Rightarrow> False
    | Crash f \<Rightarrow> False)
   \<and> (case execute_command 128 dot_names_world shell_init (''.x'' @ [NEWLINE]) of
      Return (st, r) \<Rightarrow>
        r = EXIT_FAILURE \<and> stderr_log st = [CMD_NOT_FOUND ''.x''] \<and> procs st = []
    | Exit c \<Rightarrow> False
    | Crash f \<Rightarrow> False)
   \<and> which_full_path dot_names_world shell_init ''../x'' = Some ''../x''
   \<and> find_executable_path dot_names_world shell_init ''../x'' = None
   \<and> which_full_path dot_names_world shell_init ''.x'' = Some ''.x''
   \<and> find_executable_path dot_names_world shell_init ''.x'' = None"
  by code_simp

section \<open>Pipelines: status and children\<close>

lemma forked_pids_append [simp]: "forked_pids (a @ b) = forked_pids a @ forked_pids b"
  by (induction a rule: forked_pids.induct) simp_all

lemma killed_pids_append [simp]: "killed_pids (a @ b) = killed_pids a @ killed_pids b"
  by (induction a rule: killed_pids.induct) simp_all

lemma waited_pids_append [simp]: "waited_pids (a @ b) = waited_pids a @ waited_pids b"
  by (induction a rule: waited_pids.induct) simp_all

lemma pids_of_kills [simp]:
  "forked_pids (map Killed ps) = []" "killed_pids (map Killed ps) = ps" "waited_pids (map Killed ps) = []"
  by (induction ps) simp_all

lemma pids_of_waits [simp]:
  "forked_pids (map WaitCalled ps) = []" "killed_pids (map WaitCalled ps) = []"
  "waited_pids (map WaitCalled ps) = ps"
  by (induction ps) simp_all

text \<open>The loop that forks the earlier segments.\<close>

lemma spawn_loop_created:
  "(\<forall>k < length segs. pipe_res w (i + k) \<noteq> None \<and> fork_res w (i + k) \<noteq> None) \<Longrightarrow>
   \<exists>st' prev' evs. spawn_loop M w st i prev pids segs
        = Inr (st', prev', pids @ map (\<lambda>k. pid_of w (i + k)) [0..<length segs])
      \<and> procs st' = procs st @ evs \<and> rc st' = rc st
      \<and> forked_pids evs = map (\<lambda>k. pid_of w (i + k)) [0..<length segs]
      \<and> killed_pids evs = [] \<and> waited_pids evs = []"
proof (induction segs arbitrary: st i prev pids)
  case Nil
  show ?case by simp
next
  case (Cons seg segs)
  from Cons.prems have here: "pipe_res w i \<noteq> None" "fork_res w i \<noteq> None"
    by force+
  then obtain rd wr pid where p: "pipe_res w i = Some (rd, wr)" and f: "fork_res w i = Some pid"
    by auto
  have later: "\<forall>k < length segs. pipe_res w (Suc i + k) \<noteq> None \<and> fork_res w (Suc i + k) \<noteq> None"
    using Cons.prems by (metis Suc_less_eq add_Suc_shift length_Cons)
  let ?st1 = "log_event st (Forked pid (execute_segment M w st seg prev wr))"
  obtain st' prev' evs where IH:
    "spawn_loop M w ?st1 (Suc i) rd (pids @ [pid]) segs
        = Inr (st', prev', (pids @ [pid]) @ map (\<lambda>k. pid_of w (Suc i + k)) [0..<length segs])"
    "procs st' = procs ?st1 @ evs" "rc st' = rc ?st1"
    "forked_pids evs = map (\<lambda>k. pid_of w (Suc i + k)) [0..<length segs]"
    "killed_pids evs = []" "waited_pids evs = []"
    using Cons.IH[OF later, of ?st1 rd "pids @ [pid]"] by blast
  have idx: "map (\<lambda>k. pid_of w (i + k)) [0..<length (seg # segs)]
      = pid # map (\<lambda>k. pid_of w (Suc i + k)) [0..<length segs]"
    using f by (simp add: upt_rec[of 0] map_Suc_upt[symmetric] pid_of_def del: upt_Suc)
  show ?case
    apply (rule exI[of _ st'], rule exI[of _ prev'])
    apply (rule exI[of _ "Forked pid (execute_segment M w st seg prev wr) # evs"])
    using IH p f idx by (simp add: log_event_def)
qed

lemma spawn_loop_not_created:
  "\<not> (\<forall>k < length segs. pipe_res w (i + k) \<noteq> None \<and> fork_res w (i + k) \<noteq> None) \<Longrightarrow>
   \<exists>st' evs new. spawn_loop M w st i prev pids segs = Inl st'
      \<and> procs st' = procs st @ evs \<and> rc st' = rc st
      \<and> forked_pids evs = new \<and> length new < length segs
      \<and> killed_pids evs = pids @ new \<and> waited_pids evs = []"
proof (induction segs arbitrary: st i prev pids)
  case Nil
  then show ?case by simp
next
  case (Cons seg segs)
  show ?case
  proof (cases "pipe_res w i")
    case None
    then show ?thesis by (simp add: kill_all_def perror_def)
  next
    case (Some fds)
    obtain rd wr where fds: "fds = (rd, wr)" by (cases fds)
    show ?thesis
    proof (cases "fork_res w i")
      case None
      then show ?thesis using Some fds by (simp add: kill_all_def perror_def)
    next
      case (Some pid)
      have later: "\<not> (\<forall>k < length segs. pipe_res w (Suc i + k) \<noteq> None \<and> fork_res w (Suc i + k) \<noteq> None)"
      proof
        assume a: "\<forall>k < length segs. pipe_res w (Suc i + k) \<noteq> None \<and> fork_res w (Suc i + k) \<noteq> None"
        have "\<forall>k < length (seg # segs). pipe_res w (i + k) \<noteq> None \<and> fork_res w (i + k) \<noteq> None"
        proof (intro allI impI)
          fix k assume "k < length (seg # segs)"
          then show "pipe_res w (i + k) \<noteq> None \<and> fork_res w (i + k) \<noteq> None"
            using a Some \<open>pipe_res w i = Some fds\<close> by (cases k) auto
        qed
        then show False using Cons.prems by blast
      qed
      let ?st1 = "log_event st (Forked pid (execute_segment M w st seg prev wr))"
      obtain st' evs new where IH:
        "spawn_loop M w ?st1 (Suc i) rd (pids @ [pid]) segs = Inl st'"
        "procs st' = procs ?st1 @ evs" "rc st' = rc ?st1"
        "forked_pids evs = new" "length new < length segs"
        "killed_pids evs = (pids @ [pid]) @ new" "waited_pids evs = []"
        using Cons.IH[OF later, of ?st1 rd "pids @ [pid]"] by blast
      show ?thesis
        apply (rule exI[of _ st'])
        apply (rule exI[of _ "Forked pid (execute_segment M w st seg prev wr) # evs"])
        apply (rule exI[of _ "pid # new"])
        using IH Some \<open>pipe_res w i = Some fds\<close> fds by (simp add: log_event_def)
    qed
  qed
qed

lemma wait_loop_result:
  "\<exists>st'. wait_loop w st a pids
       = (st', if list_all (\<lambda>p. waitpid_res w p \<noteq> None) pids then a else EXIT_FAILURE)
     \<and> rc st' = rc st \<and> procs st' = procs st @ map WaitCalled pids"
proof (induction pids arbitrary: st a)
  case Nil
  show ?case by simp
next
  case (Cons pid pids)
  show ?case
  proof (cases "waitpid_res w pid")
    case None
    obtain st' where "wait_loop w (perror (log_event st (WaitCalled pid)) ''waitpid'') EXIT_FAILURE pids
        = (st', if list_all (\<lambda>p. waitpid_res w p \<noteq> None) pids then EXIT_FAILURE else EXIT_FAILURE)"
      "rc st' = rc (perror (log_event st (WaitCalled pid)) ''waitpid'')"
      "procs st' = procs (perror (log_event st (WaitCalled pid)) ''waitpid'') @ map WaitCalled pids"
      using Cons.IH by blast
    then show ?thesis using None by (simp add: perror_def log_event_def)
  next
    case (Some status)
    obtain st' where "wait_loop w (log_event st (WaitCalled pid)) a pids
        = (st', if list_all (\<lambda>p. waitpid_res w p \<noteq> None) pids then a else EXIT_FAILURE)"
      "rc st' = rc (log_event st (WaitCalled pid))"
      "procs st' = procs (log_event st (WaitCalled pid)) @ map WaitCalled pids"
      using Cons.IH by blast
    then show ?thesis using Some by (simp add: log_event_def)
  qed
qed


lemma all_created_iff:
  "all_created w n \<longleftrightarrow> (\<forall>k < n - 1. pipe_res w k \<noteq> None) \<and> (\<forall>k < n. fork_res w k \<noteq> None)"
  by (auto simp: all_created_def list_all_iff)

lemma execute_pipeline_created:
  assumes "segments \<noteq> []" and "all_created w (length segments)"
  shows "\<exists>st' evs. execute_pipeline M w st segments =
           Return (st',
             if waitpid_res w (pid_of w (length segments - 1)) = Some (Exited 0)
                \<and> list_all (\<lambda>i. waitpid_res w (pid_of w i) \<noteq> None) [0..<length segments - 1]
             then EXIT_SUCCESS else EXIT_FAILURE)
         \<and> rc st' = (case waitpid_res w (pid_of w (length segments - 1)) of
                       Some (Exited c) \<Rightarrow> c | _ \<Rightarrow> EXIT_FAILURE)
         \<and> procs st' = procs st @ evs
         \<and> forked_pids evs = map (pid_of w) [0..<length segments]
         \<and> waited_pids evs = pid_of w (length segments - 1) # map (pid_of w) [0..<length segments - 1]
         \<and> killed_pids evs = []"
proof -
  let ?n = "length segments"
  let ?early = "map (pid_of w) [0..<?n - 1]"
  have n: "?n = Suc (?n - 1)" using assms(1) by simp
  have pre: "\<forall>k < length (butlast segments). pipe_res w (0 + k) \<noteq> None \<and> fork_res w (0 + k) \<noteq> None"
    using assms(2) by (simp add: all_created_iff)
  obtain st1 prev evs1 where sp:
    "spawn_loop M w st 0 STDIN_FILENO [] (butlast segments) = Inr (st1, prev, ?early)"
    "procs st1 = procs st @ evs1" "rc st1 = rc st"
    "forked_pids evs1 = ?early" "killed_pids evs1 = []" "waited_pids evs1 = []"
    using spawn_loop_created[OF pre, of M st STDIN_FILENO "[]"] by auto
  have "fork_res w (?n - 1) \<noteq> None"
    using assms by (simp add: all_created_iff)
  then obtain pid_last where f: "fork_res w (?n - 1) = Some pid_last" by auto
  then have pl: "pid_of w (?n - 1) = pid_last" by (simp add: pid_of_def)
  let ?child = "execute_segment M w st1 (last segments) prev STDOUT_FILENO"
  let ?st2 = "log_event (log_event st1 (Forked pid_last ?child)) (WaitCalled pid_last)"
  define st3 where "st3 =
     (case waitpid_res w pid_last of
        None \<Rightarrow> (perror ?st2 ''waitpid'')\<lparr>rc := EXIT_FAILURE\<rparr>
      | Some (Exited c) \<Rightarrow> ?st2\<lparr>rc := c\<rparr>
      | Some NotExited \<Rightarrow> ?st2\<lparr>rc := EXIT_FAILURE\<rparr>)"
  define a where "a =
     (case waitpid_res w pid_last of
        None \<Rightarrow> EXIT_FAILURE
      | Some (Exited c) \<Rightarrow> (if c \<noteq> EXIT_SUCCESS then EXIT_FAILURE else EXIT_SUCCESS)
      | Some NotExited \<Rightarrow> EXIT_FAILURE)"
  have split3: "(case waitpid_res w pid_last of
          None \<Rightarrow> ((perror ?st2 ''waitpid'')\<lparr>rc := EXIT_FAILURE\<rparr>, EXIT_FAILURE)
        | Some (Exited c) \<Rightarrow> (?st2\<lparr>rc := c\<rparr>, if c \<noteq> EXIT_SUCCESS then EXIT_FAILURE else EXIT_SUCCESS)
        | Some NotExited \<Rightarrow> (?st2\<lparr>rc := EXIT_FAILURE\<rparr>, EXIT_FAILURE)) = (st3, a)"
    unfolding st3_def a_def by (simp split: option.splits wstatus.splits)
  have rc3: "rc st3 = (case waitpid_res w pid_last of Some (Exited c) \<Rightarrow> c | _ \<Rightarrow> EXIT_FAILURE)"
    unfolding st3_def by (simp add: perror_def split: option.splits wstatus.splits)
  have procs3: "procs st3 = procs st @ evs1 @ [Forked pid_last ?child, WaitCalled pid_last]"
    unfolding st3_def using sp(2)
    by (simp add: perror_def log_event_def split: option.splits wstatus.splits)
  obtain st' where wl:
    "wait_loop w st3 a ?early
       = (st', if list_all (\<lambda>p. waitpid_res w p \<noteq> None) ?early then a else EXIT_FAILURE)"
    "rc st' = rc st3" "procs st' = procs st3 @ map WaitCalled ?early"
    using wait_loop_result[of w st3 a ?early] by blast
  have run: "execute_pipeline M w st segments = Return (wait_loop w st3 a ?early)"
    unfolding execute_pipeline_def
    by (simp only: sp(1) f assms(1) split3 sum.case prod.case option.case Let_def if_False
          list.size length_map length_upt diff_zero)
  have status: "(if list_all (\<lambda>p. waitpid_res w p \<noteq> None) ?early then a else EXIT_FAILURE)
      = (if waitpid_res w pid_last = Some (Exited 0)
            \<and> list_all (\<lambda>i. waitpid_res w (pid_of w i) \<noteq> None) [0..<?n - 1]
         then EXIT_SUCCESS else EXIT_FAILURE)"
    unfolding a_def by (auto simp: list_all_iff split: option.splits wstatus.splits)
  obtain m where m: "?n = Suc m" using assms(1) by (cases segments) auto
  have upt: "map (pid_of w) [0..<?n] = ?early @ [pid_last]"
    using pl unfolding m by simp
  show ?thesis
    apply (rule exI[of _ st'])
    apply (rule exI[of _ "evs1 @ [Forked pid_last ?child, WaitCalled pid_last] @ map WaitCalled ?early"])
    using run wl status rc3 procs3 sp(4,5,6) pl upt by (simp del: map_map)
qed

text \<open>
  C3. For every executed pipeline (every \<^verbatim>\<open>pipe\<close> and \<^verbatim>\<open>fork\<close> succeeded), the recorded
  last return code is the exit status of the last segment's process (failure when that
  process did not exit normally or could not be waited for), and the status the
  pipeline reports is success exactly when that exit status is 0 and no wait failed,
  failure otherwise. Neither depends on the exit statuses of the earlier segments: of
  those only a failure of the wait itself counts, and it is reported as failure.
\<close>

theorem pipeline_status_is_last_segments:
  assumes "segments \<noteq> []" and "all_created w (length segments)"
  shows "\<exists>st'. execute_pipeline M w st segments =
           Return (st',
             if waitpid_res w (pid_of w (length segments - 1)) = Some (Exited 0)
                \<and> list_all (\<lambda>i. waitpid_res w (pid_of w i) \<noteq> None) [0..<length segments - 1]
             then EXIT_SUCCESS else EXIT_FAILURE)
         \<and> rc st' = (case waitpid_res w (pid_of w (length segments - 1)) of
                       Some (Exited c) \<Rightarrow> c | _ \<Rightarrow> EXIT_FAILURE)"
  using execute_pipeline_created[OF assms, of M st] by blast

lemma execute_pipeline_not_created:
  assumes "segments \<noteq> []" and "\<not> all_created w (length segments)"
  shows "\<exists>st' evs. execute_pipeline M w st segments = Return (st', EXIT_FAILURE)
         \<and> rc st' = rc st \<and> procs st' = procs st @ evs
         \<and> length (forked_pids evs) < length segments
         \<and> killed_pids evs = forked_pids evs \<and> waited_pids evs = []"
proof (cases "\<forall>k < length (butlast segments). pipe_res w (0 + k) \<noteq> None \<and> fork_res w (0 + k) \<noteq> None")
  case False
  obtain st' evs new where sp:
    "spawn_loop M w st 0 STDIN_FILENO [] (butlast segments) = Inl st'"
    "procs st' = procs st @ evs" "rc st' = rc st"
    "forked_pids evs = new" "length new < length (butlast segments)"
    "killed_pids evs = [] @ new" "waited_pids evs = []"
    using spawn_loop_not_created[OF False, of M st STDIN_FILENO "[]"] by blast
  show ?thesis
    apply (rule exI[of _ st'], rule exI[of _ evs])
    unfolding execute_pipeline_def using sp by simp
next
  case True
  let ?n = "length segments"
  let ?early = "map (pid_of w) [0..<?n - 1]"
  obtain st1 prev evs1 where sp:
    "spawn_loop M w st 0 STDIN_FILENO [] (butlast segments) = Inr (st1, prev, ?early)"
    "procs st1 = procs st @ evs1" "rc st1 = rc st"
    "forked_pids evs1 = ?early" "killed_pids evs1 = []" "waited_pids evs1 = []"
    using spawn_loop_created[OF True, of M st STDIN_FILENO "[]"] by auto
  have "fork_res w (?n - 1) = None"
  proof (rule ccontr)
    assume "fork_res w (?n - 1) \<noteq> None"
    moreover obtain m where "?n = Suc m" using assms(1) by (cases segments) auto
    ultimately have "\<forall>k < ?n. fork_res w k \<noteq> None"
      using True by (auto simp: less_Suc_eq)
    then have "all_created w ?n" using True by (simp add: all_created_iff)
    then show False using assms(2) by simp
  qed
  then have run: "execute_pipeline M w st segments
      = Return (kill_all (perror st1 ''fork'') ?early, EXIT_FAILURE)"
    unfolding execute_pipeline_def by (simp add: sp(1))
  show ?thesis
    apply (rule exI[of _ "kill_all (perror st1 ''fork'') ?early"])
    apply (rule exI[of _ "evs1 @ map Killed ?early"])
    using run sp assms(1) by (simp add: kill_all_def perror_def del: map_map)
qed

text \<open>
  C4, as amended. When every \<^verbatim>\<open>pipe\<close> and \<^verbatim>\<open>fork\<close> of a pipeline succeeds, one process
  is forked per segment, each of them is waited for exactly once, whatever the exit
  statuses and whether or not a wait fails, and none is signalled. When a \<^verbatim>\<open>pipe\<close> or
  \<^verbatim>\<open>fork\<close> fails partway through, each process forked so far is sent the termination
  signal exactly once and the pipeline returns failure; no wait is made for them.
\<close>

theorem pipeline_children_waited_or_killed:
  assumes "segments \<noteq> []"
  shows "\<exists>st' r evs. execute_pipeline M w st segments = Return (st', r)
         \<and> procs st' = procs st @ evs
         \<and> (if all_created w (length segments)
            then forked_pids evs = map (pid_of w) [0..<length segments]
               \<and> mset (waited_pids evs) = mset (forked_pids evs)
               \<and> killed_pids evs = []
            else r = EXIT_FAILURE
               \<and> length (forked_pids evs) < length segments
               \<and> killed_pids evs = forked_pids evs
               \<and> waited_pids evs = [])"
proof (cases "all_created w (length segments)")
  case True
  let ?n = "length segments"
  obtain st' evs where ok:
    "execute_pipeline M w st segments =
           Return (st',
             if waitpid_res w (pid_of w (?n - 1)) = Some (Exited 0)
                \<and> list_all (\<lambda>i. waitpid_res w (pid_of w i) \<noteq> None) [0..<?n - 1]
             then EXIT_SUCCESS else EXIT_FAILURE)"
    "procs st' = procs st @ evs"
    "forked_pids evs = map (pid_of w) [0..<?n]"
    "waited_pids evs = pid_of w (?n - 1) # map (pid_of w) [0..<?n - 1]"
    "killed_pids evs = []"
    using execute_pipeline_created[OF assms True, of M st] by blast
  obtain m where m: "?n = Suc m" using assms by (cases segments) auto
  have "mset (waited_pids evs) = mset (forked_pids evs)"
    unfolding ok(3,4) m by simp
  then show ?thesis using ok True by (intro exI[of _ st'] exI[of _ evs] exI) simp
next
  case False
  obtain st' evs where bad:
    "execute_pipeline M w st segments = Return (st', EXIT_FAILURE)" "procs st' = procs st @ evs"
    "length (forked_pids evs) < length segments"
    "killed_pids evs = forked_pids evs" "waited_pids evs = []"
    using execute_pipeline_not_created[OF assms False, of M st] by blast
  then show ?thesis using False by (intro exI[of _ st'] exI[of _ evs] exI) simp
qed


theorem pipeline_status_is_last_segments_witness:
  "[''false'', ''true'', ''false''] \<noteq> [] \<and>
   all_created false_true_false (length [''false'', ''true'', ''false'']) \<and>
   (\<exists>st'. execute_pipeline 128 false_true_false shell_init [''false'', ''true'', ''false'']
            = Return (st', EXIT_FAILURE) \<and> rc st' = 1)"
  using pipeline_status_is_last_segments [of "[''false'', ''true'', ''false'']" false_true_false 128 shell_init]
  by (simp add: all_created_def false_true_false_def bare_world_def pid_of_def)

theorem pipeline_children_waited_or_killed_witness:
  "[''a'', ''b''] \<noteq> [] \<and> all_created bare_world 2 \<and>
   (\<exists>st' r evs. execute_pipeline 128 bare_world shell_init [''a'', ''b''] = Return (st', r)
      \<and> procs st' = procs shell_init @ evs
      \<and> forked_pids evs = [100, 101]
      \<and> mset (waited_pids evs) = mset (forked_pids evs)
      \<and> killed_pids evs = [])"
  using pipeline_children_waited_or_killed [of "[''a'', ''b'']" 128 bare_world shell_init]
  by (simp add: all_created_def bare_world_def pid_of_def upt_rec)

text \<open>
  The counterexample to C4 as stated: in a pipeline of two segments whose second
  \<^verbatim>\<open>fork\<close> fails, the first child is forked and signalled, and never waited for.
\<close>

theorem fork_failure_counterexample:
  "(case execute_pipeline 128 second_fork_fails shell_init [''a'', ''b''] of
      Return (st', r) \<Rightarrow>
        forked_pids (procs st') = [100] \<and> killed_pids (procs st') = [100]
        \<and> waited_pids (procs st') = [] \<and> r = EXIT_FAILURE
    | Exit c \<Rightarrow> False
    | Crash f \<Rightarrow> False)"
  by code_simp

section \<open>The exit code of the shell\<close>

text \<open>
  C1 (the code does not do what the claim says). The claim: in both modes the exit code
  of the shell is the last recorded return code, non-zero when the most recent command
  failed. In batch mode \<^verbatim>\<open>main\<close> overwrites \<^verbatim>\<open>rc\<close> with the value of \<^verbatim>\<open>batch_main\<close>,
  which is the value \<^verbatim>\<open>execute_command\<close> returned for the last line; that value is
  \<^verbatim>\<open>EXIT_SUCCESS\<close> for an external command that ran and failed, and for an empty line.
  The script \<^verbatim>\<open>false\<close> ends the shell with exit code 0, and so does the failing
  \<^verbatim>\<open>cd a b\<close> followed by an empty line; the same input typed in interactive mode
  ends it with exit code 1.
\<close>

theorem batch_exit_code_loses_failure:
  "exit_code (main 128 (Batch (Some [(false_world, ''false'' @ [NEWLINE])]))) = Some 0
   \<and> exit_code (main 128 (Interactive [(false_world, ''false'' @ [NEWLINE])])) = Some 1
   \<and> exit_code (main 128 (Batch (Some [(bare_world, ''cd a b'' @ [NEWLINE]), (bare_world, [NEWLINE])])))
       = Some 0
   \<and> exit_code (main 128 (Interactive [(bare_world, ''cd a b'' @ [NEWLINE]), (bare_world, [NEWLINE])]))
       = Some 1"
  by code_simp

section \<open>Alias expansion\<close>

lemma wsh_alias_defines:
  "name \<noteq> [] \<Longrightarrow> wsh_alias w st0 [''alias'', name, ''='', expansion]
     = Return (st0\<lparr>alias_hm := hm_put (alias_hm st0) name expansion\<rparr>, EXIT_SUCCESS)"
  by (simp add: wsh_alias_def)

lemma hm_get_put: "hm_get (hm_put hm k v) k = Some v"
  by (simp add: hm_get_def hm_put_def)

lemma execute_command_alias:
  assumes "hm_get (alias_hm st) name = Some expansion"
    and "PIPE \<notin> set cmdline"
    and "parseline_no_subst MAX_ARGS (Some cmdline) = Parsed (name # args)"
  shows "execute_command MAX_ARGS w st cmdline =
           (case call_parseline MAX_ARGS (record_history w st cmdline)
                   (expansion @ concat (map (\<lambda>a. SPACE # a) args)) of
              None \<Rightarrow> Crash ArgvOverrun
            | Some (st2, []) \<Rightarrow> Return (st2, EXIT_SUCCESS)
            | Some (st2, c # cs) \<Rightarrow> dispatch w st2 (c # cs))"
proof -
  have al: "alias_hm (record_history w st cmdline) = alias_hm st"
    by (simp add: record_history_def Let_def)
  have cp: "call_parseline MAX_ARGS (record_history w st cmdline) cmdline
      = Some (record_history w st cmdline, name # args)"
    using assms(3) by (simp add: call_parseline_def)
  show ?thesis
    unfolding execute_command_def Let_def
    using assms(1,2) al cp
    by (simp add: alias_subst_def split: option.splits list.splits)
qed

text \<open>
  C6, as amended. The claim as stated fails: the line \<^verbatim>\<open>alias x = echo hi\<close> has five
  arguments and is a usage error; the expansion must be one token, as in
  \<^verbatim>\<open>alias x = 'echo hi'\<close>. What holds: after a definition \<^verbatim>\<open>alias NAME = EXPANSION\<close>
  with a non-empty name and the expansion as one argument, a line without a pipe whose
  head token is the name is executed as follows: the expansion text replaces the head
  token, each remaining argument is appended after a single space, the synthesized line
  is tokenized again, and its argument vector is dispatched (an empty one is a
  successful no-op).
\<close>

theorem alias_invocation_executes_expansion:
  assumes "name \<noteq> []"
    and "PIPE \<notin> set cmdline"
    and "parseline_no_subst MAX_ARGS (Some cmdline) = Parsed (name # args)"
  shows "\<exists>st. wsh_alias w st0 [''alias'', name, ''='', expansion] = Return (st, EXIT_SUCCESS)
     \<and> hm_get (alias_hm st) name = Some expansion
     \<and> execute_command MAX_ARGS w st cmdline =
           (case call_parseline MAX_ARGS (record_history w st cmdline)
                   (expansion @ concat (map (\<lambda>a. SPACE # a) args)) of
              None \<Rightarrow> Crash ArgvOverrun
            | Some (st2, []) \<Rightarrow> Return (st2, EXIT_SUCCESS)
            | Some (st2, c # cs) \<Rightarrow> dispatch w st2 (c # cs))"
proof -
  let ?st = "st0\<lparr>alias_hm := hm_put (alias_hm st0) name expansion\<rparr>"
  have "hm_get (alias_hm ?st) name = Some expansion" by (simp add: hm_get_put)
  then show ?thesis
    using wsh_alias_defines[OF assms(1), of w st0 expansion]
      execute_command_alias[of ?st name expansion cmdline MAX_ARGS args w] assms(2,3)
    by (intro exI[of _ ?st]) simp
qed

lemma tokens_of_x_there: "parseline_no_subst 128 (Some (''x there'' @ [NEWLINE])) = Parsed [''x'', ''there'']"
  by code_simp

lemma tokens_of_echo_hi_there: "call_parseline 128 s ''echo hi there'' = Some (s, [''echo'', ''hi'', ''there''])"
  unfolding call_parseline_def by code_simp

theorem alias_invocation_executes_expansion_witness:
  "''x'' \<noteq> [] \<and> PIPE \<notin> set (''x there'' @ [NEWLINE]) \<and>
   parseline_no_subst 128 (Some (''x there'' @ [NEWLINE])) = Parsed [''x'', ''there''] \<and>
   (\<exists>st. wsh_alias echo_world shell_init [''alias'', ''x'', ''='', ''echo hi''] = Return (st, EXIT_SUCCESS)
      \<and> hm_get (alias_hm st) ''x'' = Some ''echo hi''
      \<and> execute_command 128 echo_world st (''x there'' @ [NEWLINE])
          = dispatch echo_world (record_history echo_world st (''x there'' @ [NEWLINE])) [''echo'', ''hi'', ''there''])"
  using alias_invocation_executes_expansion [of "''x''" "''x there'' @ [NEWLINE]" 128 "[''there'']" echo_world
      shell_init "''echo hi''"] tokens_of_x_there
  by (simp add: tokens_of_echo_hi_there)

text \<open>
  The counterexample to C6 as stated: the line \<^verbatim>\<open>alias x = echo hi\<close> is rejected with
  the usage diagnostic and defines nothing; \<^verbatim>\<open>x there\<close> after it is the unknown
  command \<^verbatim>\<open>x\<close>, and no process is started although \<^verbatim>\<open>/bin/echo\<close> is executable.
\<close>

theorem alias_unquoted_counterexample:
  "(case execute_command 128 echo_world shell_init (''alias x = echo hi'' @ [NEWLINE]) of
      Return (st1, r1) \<Rightarrow>
        r1 = EXIT_FAILURE \<and> alias_hm st1 = [] \<and> stderr_log st1 = [INVALID_ALIAS_USE] \<and>
        (case execute_command 128 echo_world st1 (''x there'' @ [NEWLINE]) of
           Return (st2, r2) \<Rightarrow>
             r2 = EXIT_FAILURE \<and> procs st2 = []
             \<and> stderr_log st2 = [INVALID_ALIAS_USE, CMD_NOT_FOUND ''x'']
         | Exit c \<Rightarrow> False
         | Crash f \<Rightarrow> False)
    | Exit c \<Rightarrow> False
    | Crash f \<Rightarrow> False)"
  by code_simp

section \<open>Validation of pipelines\<close>

lemma fields_no_delim: "d \<notin> set s \<Longrightarrow> split_fields d s = [s]"
  by (induction s) auto

lemma fields_not_Nil [simp]: "split_fields d s \<noteq> []"
  by (induction s) (auto split: list.splits)

lemma fields_delim:
  "d \<in> set s \<Longrightarrow>
   split_fields d s = takeWhile (\<lambda>x. x \<noteq> d) s # split_fields d (tl (dropWhile (\<lambda>x. x \<noteq> d) s))"
proof (induction s)
  case Nil
  then show ?case by simp
next
  case (Cons c s)
  show ?case
  proof (cases "c = d")
    case True
    then show ?thesis by simp
  next
    case False
    then have "d \<in> set s" using Cons.prems by simp
    then show ?thesis using Cons.IH False by simp
  qed
qed

lemma count_after_delim:
  "d \<in> set s \<Longrightarrow> Suc (count_list (tl (dropWhile (\<lambda>x. x \<noteq> d) s)) d) = count_list s d"
  by (induction s) auto

lemma has_empty_segment_delim:
  "PIPE \<in> set s \<Longrightarrow>
   has_empty_segment s \<longleftrightarrow>
     blank_segment (takeWhile (\<lambda>x. x \<noteq> PIPE) s)
     \<or> has_empty_segment (tl (dropWhile (\<lambda>x. x \<noteq> PIPE) s))"
  by (simp add: has_empty_segment_def fields_delim)

lemma has_empty_segment_no_delim:
  "PIPE \<notin> set s \<Longrightarrow> has_empty_segment s \<longleftrightarrow> blank_last_segment s"
  by (simp add: has_empty_segment_def fields_no_delim)

lemma split_segments_fields:
  "length segs + count_list rest PIPE < M \<Longrightarrow>
   split_segments M rest segs
     = (if has_empty_segment rest then None else Some (segs @ split_fields PIPE rest))"
proof (induction M rest segs rule: split_segments.induct)
  case (1 M rest segs)
  show ?case
  proof (cases "PIPE \<in> set rest")
    case True
    have room: "length segs < M" using "1.prems" by simp
    show ?thesis
    proof (cases "blank_segment (takeWhile (\<lambda>x. x \<noteq> PIPE) rest)")
      case blank: True
      then show ?thesis
        using True room
        by (subst split_segments.simps) (simp add: has_empty_segment_delim blank_segment_def)
    next
      case False
      have "length (segs @ [takeWhile (\<lambda>x. x \<noteq> PIPE) rest])
            + count_list (tl (dropWhile (\<lambda>x. x \<noteq> PIPE) rest)) PIPE < M"
        using "1.prems" count_after_delim[OF True] by simp
      then have "split_segments M (tl (dropWhile (\<lambda>x. x \<noteq> PIPE) rest))
                   (segs @ [takeWhile (\<lambda>x. x \<noteq> PIPE) rest])
          = (if has_empty_segment (tl (dropWhile (\<lambda>x. x \<noteq> PIPE) rest)) then None
             else Some ((segs @ [takeWhile (\<lambda>x. x \<noteq> PIPE) rest])
                        @ split_fields PIPE (tl (dropWhile (\<lambda>x. x \<noteq> PIPE) rest))))"
        using "1.IH" True room False by (simp add: blank_segment_def)
      then show ?thesis
        using True room False
        by (subst split_segments.simps)
           (auto simp add: has_empty_segment_delim blank_segment_def fields_delim)
    qed
  next
    case False
    have room: "length segs < M" using "1.prems" by simp
    show ?thesis
      using False room
      by (subst split_segments.simps)
         (simp add: has_empty_segment_no_delim blank_last_segment_def fields_no_delim Let_def)
  qed
qed


lemma call_parseline_cases:
  "call_parseline M st line = Some (st1, ts) \<Longrightarrow>
   (ts \<noteq> [] \<longrightarrow> st1 = st \<and> parseline_no_subst M (Some line) = Parsed ts)
   \<and> (st1 = st \<or> st1 = wsh_warn st MISSING_CLOSING_QUOTE)"
  by (auto simp: call_parseline_def split: parse_result.splits)

lemma validate_segments_abort:
  "validate_segments M w st segs = VAbort st' \<Longrightarrow>
   rc st' = EXIT_FAILURE \<and> procs st' = procs st
   \<and> length (stderr_log st) < length (stderr_log st')"
proof (induction segs)
  case Nil
  then show ?case by simp
next
  case (Cons seg segs)
  show ?case
  proof (cases "call_parseline M st seg")
    case None
    then show ?thesis using Cons.prems by simp
  next
    case (Some a)
    obtain st1 ts where a: "a = (st1, ts)" by (cases a)
    show ?thesis
    proof (cases ts)
      case Nil
      then have "st' = wsh_warn st1 EMPTY_PIPE_SEGMENT" using Cons.prems Some a by simp
      moreover have "st1 = st \<or> st1 = wsh_warn st MISSING_CLOSING_QUOTE"
        using call_parseline_cases Some a by blast
      ultimately show ?thesis by (auto simp: wsh_warn_def)
    next
      case (Cons name args)
      then have st1: "st1 = st" using call_parseline_cases Some a by blast
      show ?thesis
        using Cons.prems Some a Cons st1 Cons.IH
        by (auto simp: wsh_warn_def split: option.splits sum.splits list.splits if_splits
            validation.splits prod.splits)
    qed
  qed
qed

lemma validate_segments_ok:
  "validate_segments M w st segs = VOk segs' \<Longrightarrow> \<not> list_ex (unresolvable M w st) segs"
proof (induction segs arbitrary: segs')
  case Nil
  then show ?case by simp
next
  case (Cons seg segs)
  show ?case
  proof (cases "call_parseline M st seg")
    case None
    then show ?thesis using Cons.prems by simp
  next
    case (Some a)
    obtain st1 ts where a: "a = (st1, ts)" by (cases a)
    show ?thesis
    proof (cases ts)
      case Nil
      then show ?thesis using Cons.prems Some a by simp
    next
      case (Cons name args)
      then have st1: "st1 = st" and parse: "parseline_no_subst M (Some seg) = Parsed (name # args)"
        using call_parseline_cases Some a by blast+
      show ?thesis
      proof (cases "hm_get (alias_hm st) name")
        case None
        then show ?thesis
          using Cons.prems Some a Cons st1 parse Cons.IH
          by (auto simp: unresolvable_def segment_head_def split: if_splits validation.splits)
      next
        case al: (Some alias_cmd)
        show ?thesis
        proof (cases "call_parseline M st (alias_subst alias_cmd (name # args))")
          case None
          then show ?thesis using Cons.prems Some a Cons st1 al by simp
        next
          case (Some b)
          obtain st2 ts2 where b: "b = (st2, ts2)" by (cases b)
          show ?thesis
          proof (cases ts2)
            case Nil
            then show ?thesis
              using Cons.prems \<open>call_parseline M st seg = Some a\<close> a Cons st1 al Some b by simp
          next
            case (Cons name' args')
            then have parse2: "parseline_no_subst M (Some (alias_subst alias_cmd (name # args)))
                = Parsed (name' # args')"
              using call_parseline_cases Some b by blast
            show ?thesis
              using Cons.prems \<open>call_parseline M st seg = Some a\<close> a \<open>ts = name # args\<close> st1 al
                Some b Cons parse parse2 Cons.IH
              by (auto simp: unresolvable_def segment_head_def split: if_splits validation.splits)
          qed
        qed
      qed
    qed
  qed
qed

lemma record_history_fields [simp]:
  "alias_hm (record_history w st line) = alias_hm st"
  "path_env (record_history w st line) = path_env st"
  "procs (record_history w st line) = procs st"
  "stderr_log (record_history w st line) = stderr_log st"
  "rc (record_history w st line) = rc st"
  "stdout_log (record_history w st line) = stdout_log st"
  by (simp_all add: record_history_def Let_def)

lemma unresolvable_record_history [simp]:
  "unresolvable M w (record_history w' st line) seg = unresolvable M w st seg"
  unfolding unresolvable_def segment_head_def find_executable_path_def record_history_fields ..

lemma checkable_record_history [simp]:
  "checkable M (record_history w st line) seg = checkable M st seg"
  unfolding checkable_def record_history_fields ..

text \<open>
  A line with \<^verbatim>\<open>MAX_ARGS\<close> or more pipe separators: the loop stores the first
  \<^verbatim>\<open>MAX_ARGS\<close> fields and stops.
\<close>

lemma fields_length: "length (split_fields d s) = Suc (count_list s d)"
  by (induction s) (auto split: list.splits)

lemma split_segments_take:
  "length segs + k = M \<Longrightarrow> k \<le> count_list rest PIPE \<Longrightarrow>
   split_segments M rest segs
     = (if list_ex blank_segment (take k (split_fields PIPE rest)) then None
        else Some (segs @ take k (split_fields PIPE rest)))"
proof (induction k arbitrary: rest segs)
  case 0
  then show ?case by (subst split_segments.simps) simp
next
  case (Suc k)
  have pipe: "PIPE \<in> set rest"
    using Suc.prems(2) by (metis Suc_le_D count_notin nat.simps(3))
  have room: "length segs < M" using Suc.prems(1) by simp
  let ?f = "takeWhile (\<lambda>x. x \<noteq> PIPE) rest"
  let ?r = "tl (dropWhile (\<lambda>x. x \<noteq> PIPE) rest)"
  have fs: "split_fields PIPE rest = ?f # split_fields PIPE ?r" by (rule fields_delim[OF pipe])
  have "k \<le> count_list ?r PIPE" using count_after_delim[OF pipe] Suc.prems(2) by simp
  then have ih: "split_segments M ?r (segs @ [?f])
      = (if list_ex blank_segment (take k (split_fields PIPE ?r)) then None
         else Some ((segs @ [?f]) @ take k (split_fields PIPE ?r)))"
    using Suc.IH[of "segs @ [?f]" ?r] Suc.prems(1) by simp
  show ?case
    using pipe room ih
    by (subst split_segments.simps) (simp add: fs blank_segment_def)
qed

text \<open>A segment that can be checked is checked without undefined behaviour.\<close>

lemma validate_segments_no_crash:
  "list_all (checkable M st) segs \<Longrightarrow> validate_segments M w st segs \<noteq> VCrash f"
proof (induction segs arbitrary: f)
  case Nil
  then show ?case by simp
next
  case (Cons seg segs)
  have ih: "\<And>g. validate_segments M w st segs \<noteq> VCrash g" using Cons by simp
  have c: "checkable M st seg" using Cons.prems by simp
  show ?case
  proof (cases "parseline_no_subst M (Some seg)")
    case (Parsed ts)
    show ?thesis
    proof (cases ts)
      case Nil
      then show ?thesis using Parsed by (simp add: call_parseline_def)
    next
      case (Cons name args)
      show ?thesis
      proof (cases "hm_get (alias_hm st) name")
        case None
        then show ?thesis
          using Parsed Cons ih by (simp add: call_parseline_def split: validation.splits)
      next
        case al: (Some alias_cmd)
        then obtain h rest where
          "parseline_no_subst M (Some (alias_subst alias_cmd (name # args))) = Parsed (h # rest)"
          using c Parsed Cons
          by (auto simp: checkable_def split: parse_result.splits list.splits)
        then show ?thesis
          using Parsed Cons al ih by (simp add: call_parseline_def split: validation.splits)
      qed
    qed
  next
    case (MissingQuote fs)
    then show ?thesis by (simp add: call_parseline_def)
  next
    case ArgvOverflow
    then show ?thesis using c by (simp add: checkable_def)
  qed
qed

text \<open>The loop stops at the first segment that fails: what follows it plays no part.\<close>

lemma validate_segments_prefix:
  "validate_segments M w st (take n segs) = VAbort st' \<Longrightarrow>
   validate_segments M w st segs = VAbort st'"
proof (induction segs arbitrary: n st')
  case Nil
  then show ?case by simp
next
  case (Cons seg segs)
  show ?case
  proof (cases n)
    case 0
    then show ?thesis using Cons.prems by simp
  next
    case (Suc m)
    show ?thesis
    proof (cases "validate_segments M w st (take m segs)")
      case (VAbort s)
      then have "validate_segments M w st segs = VAbort s" by (rule Cons.IH)
      then show ?thesis
        using Cons.prems Suc VAbort
        by (auto split: option.splits list.splits sum.splits if_splits prod.splits
              dest: call_parseline_cases)
    next
      case (VOk segs')
      then show ?thesis
        using Cons.prems Suc
        by (auto split: option.splits list.splits sum.splits if_splits prod.splits
              dest: call_parseline_cases)
    next
      case (VCrash g)
      then show ?thesis
        using Cons.prems Suc
        by (auto split: option.splits list.splits sum.splits if_splits prod.splits
              dest: call_parseline_cases)
    qed
  qed
qed

text \<open>
  A sufficient condition on the text alone: a segment of fewer than \<^verbatim>\<open>MAX_ARGS\<close>
  characters whose first token is no alias can be checked.
\<close>

lemma tokenize_loop_in_bounds:
  "length acc + length p \<le> M \<Longrightarrow> tokenize_loop M p acc \<noteq> ArgvOverflow"
proof (induction M p acc rule: tokenize_loop.induct)
  case (1 M p acc)
  show ?case
  proof (cases p)
    case Nil
    then show ?thesis using "1.prems" by (subst tokenize_loop.simps) simp
  next
    case (Cons c q)
    have room: "length acc \<le> M" using "1.prems" by simp
    show ?thesis
    proof (cases "c = QUOTE")
      case True
      show ?thesis
      proof (cases "QUOTE \<in> set q")
        case q: True
        let ?p' = "dropWhile (\<lambda>x. x = SPACE) (tl (dropWhile (\<lambda>x. x \<noteq> QUOTE) q))"
        have "length ?p' \<le> length (tl (dropWhile (\<lambda>x. x \<noteq> QUOTE) q))"
          by (rule length_dropWhile_le)
        also have "\<dots> \<le> length q" using length_dropWhile_le[of "\<lambda>x. x \<noteq> QUOTE" q] by simp
        finally have "length (acc @ [takeWhile (\<lambda>x. x \<noteq> QUOTE) q]) + length ?p' \<le> M"
          using "1.prems" Cons by simp
        then have "tokenize_loop M ?p' (acc @ [takeWhile (\<lambda>x. x \<noteq> QUOTE) q]) \<noteq> ArgvOverflow"
          using "1.IH"(1)[OF Cons True q room] by simp
        then show ?thesis
          using Cons True q room by (subst tokenize_loop.simps) simp
      next
        case False
        then show ?thesis using Cons True by (subst tokenize_loop.simps) simp
      qed
    next
      case False
      show ?thesis
      proof (cases "SPACE \<in> set p")
        case s: True
        let ?p' = "dropWhile (\<lambda>x. x = SPACE) (tl (dropWhile (\<lambda>x. x \<noteq> SPACE) p))"
        have ne: "dropWhile (\<lambda>x. x \<noteq> SPACE) p \<noteq> []"
          using s by (auto simp: dropWhile_eq_Nil_conv)
        have "length ?p' \<le> length (tl (dropWhile (\<lambda>x. x \<noteq> SPACE) p))"
          by (rule length_dropWhile_le)
        also have "\<dots> < length p"
          using length_dropWhile_le[of "\<lambda>x. x \<noteq> SPACE" p] ne
          by (cases "dropWhile (\<lambda>x. x \<noteq> SPACE) p") auto
        finally have "length (acc @ [takeWhile (\<lambda>x. x \<noteq> SPACE) p]) + length ?p' \<le> M"
          using "1.prems" by simp
        then have "tokenize_loop M ?p' (acc @ [takeWhile (\<lambda>x. x \<noteq> SPACE) p]) \<noteq> ArgvOverflow"
          using "1.IH"(2)[OF Cons False s room] by simp
        then show ?thesis
          using Cons False s room by (subst tokenize_loop.simps) simp
      next
        case False
        then show ?thesis using Cons \<open>c \<noteq> QUOTE\<close> room by (subst tokenize_loop.simps) simp
      qed
    qed
  qed
qed

lemma short_line_in_bounds:
  assumes "length line < M"
  shows "parseline_no_subst M (Some line) \<noteq> ArgvOverflow"
proof -
  let ?buf = "if line \<noteq> [] \<and> last line = NEWLINE then butlast line @ [SPACE] else line @ [SPACE]"
  have "length (dropWhile (\<lambda>x. x = SPACE) ?buf) \<le> length ?buf" by (rule length_dropWhile_le)
  also have "\<dots> \<le> M" using assms by simp
  finally have "tokenize_loop M (dropWhile (\<lambda>x. x = SPACE) ?buf) [] \<noteq> ArgvOverflow"
    using tokenize_loop_in_bounds[of "[]" "dropWhile (\<lambda>x. x = SPACE) ?buf" M] by simp
  then show ?thesis by (simp add: parseline_no_subst_def Let_def)
qed

lemma short_segment_checkable:
  assumes "length seg < M" and "alias_hm st = []"
  shows "checkable M st seg"
  using short_line_in_bounds[OF assms(1)] assms(2)
  by (auto simp: checkable_def hm_get_def split: parse_result.splits list.splits)

text \<open>
  The defect of lines 601-611: after the alias of a segment is replaced, the new
  argument vector is not tested for being empty (the single-command path tests
  \<^verbatim>\<open>argc == 0\<close> at line 686), and \<^verbatim>\<open>temp_argv[0]\<close>, which is \<^verbatim>\<open>NULL\<close>, is handed to
  \<^verbatim>\<open>strcmp\<close>. A pipeline whose first segment begins with an alias that expands to no
  token is not rejected: its check has undefined behaviour.
\<close>

lemma empty_alias_expansion_crashes_pipeline:
  assumes "PIPE \<in> set line" and "count_list line PIPE < M" and "\<not> has_empty_segment line"
    and "parseline_no_subst M (Some (hd (split_fields PIPE line))) = Parsed (name # args)"
    and "hm_get (alias_hm st) name = Some alias_cmd"
    and "parseline_no_subst M (Some (alias_subst alias_cmd (name # args))) = Parsed []"
  shows "execute_command M w st line = Crash NullDeref"
proof -
  have split: "split_segments M line [] = Some (split_fields PIPE line)"
    using split_segments_fields[of "[]" line M] assms(2,3) by simp
  obtain seg segs where fs: "split_fields PIPE line = seg # segs"
    by (cases "split_fields PIPE line") simp_all
  have "validate_segments M w (record_history w st line) (seg # segs) = VCrash NullDeref"
    using assms(4,5,6) fs by (simp add: call_parseline_def)
  then show ?thesis
    unfolding execute_command_def Let_def using assms(1) split fs by simp
qed

text \<open>
  C2, as amended. For every input line that contains a pipe separator, and fewer than
  \<^verbatim>\<open>MAX_ARGS\<close> of them: if a segment is empty (the trailing one included), or the head
  token of a segment after alias resolution is neither a builtin nor a resolvable
  executable and the segments up to that one can be checked (none of them has more
  tokens than the argument array holds or begins with an alias whose substituted text
  has no token, an unterminated quote or too many tokens), then the command returns
  failure before any process is spawned, a diagnostic is printed, and the last return
  code is failure. A line with \<^verbatim>\<open>MAX_ARGS\<close> or more pipe separators is cut after its
  first \<^verbatim>\<open>MAX_ARGS\<close> segments: these are checked and executed as a pipeline of their
  own, and the rest of the line is neither checked nor executed.
\<close>

theorem invalid_pipeline_aborted_before_spawn:
  assumes "PIPE \<in> set line"
  shows "(count_list line PIPE < MAX_ARGS
          \<and> (has_empty_segment line
             \<or> (\<exists>n. list_ex (unresolvable MAX_ARGS w st) (take n (split_fields PIPE line))
                   \<and> list_all (checkable MAX_ARGS st) (take n (split_fields PIPE line))))
          \<longrightarrow> (\<exists>st'. execute_command MAX_ARGS w st line = Return (st', EXIT_FAILURE)
                 \<and> rc st' = EXIT_FAILURE
                 \<and> procs st' = procs st
                 \<and> length (stderr_log st) < length (stderr_log st')))
       \<and> (MAX_ARGS \<le> count_list line PIPE
          \<longrightarrow> execute_command MAX_ARGS w st line
               = (let st1 = record_history w st line;
                      segments = take MAX_ARGS (split_fields PIPE line)
                  in if list_ex blank_segment segments
                     then Return (wsh_warn st1 EMPTY_PIPE_SEGMENT, EXIT_FAILURE)
                     else (case validate_segments MAX_ARGS w st1 segments of
                             VCrash f \<Rightarrow> Crash f
                           | VAbort st' \<Rightarrow> Return (st', EXIT_FAILURE)
                           | VOk segments' \<Rightarrow> execute_pipeline MAX_ARGS w st1 segments')))"
proof (intro conjI impI)
  let ?st = "record_history w st line"
  let ?fs = "split_fields PIPE line"
  assume a: "count_list line PIPE < MAX_ARGS
     \<and> (has_empty_segment line
        \<or> (\<exists>n. list_ex (unresolvable MAX_ARGS w st) (take n ?fs)
              \<and> list_all (checkable MAX_ARGS st) (take n ?fs)))"
  have split: "split_segments MAX_ARGS line []
      = (if has_empty_segment line then None else Some ?fs)"
    using split_segments_fields[of "[]" line MAX_ARGS] a by simp
  show "\<exists>st'. execute_command MAX_ARGS w st line = Return (st', EXIT_FAILURE)
     \<and> rc st' = EXIT_FAILURE
     \<and> procs st' = procs st
     \<and> length (stderr_log st) < length (stderr_log st')"
  proof (cases "has_empty_segment line")
    case True
    then show ?thesis
      unfolding execute_command_def Let_def using assms split
      by (simp add: wsh_warn_def)
  next
    case False
    then obtain n where bad0: "list_ex (unresolvable MAX_ARGS w st) (take n ?fs)"
      and ok0: "list_all (checkable MAX_ARGS st) (take n ?fs)"
      using a by auto
    have bad: "list_ex (unresolvable MAX_ARGS w ?st) (take n ?fs)"
      using bad0 by (simp add: list_ex_iff)
    have ok: "list_all (checkable MAX_ARGS ?st) (take n ?fs)"
      using ok0 by (simp add: list_all_iff)
    have run: "execute_command MAX_ARGS w st line =
        (case validate_segments MAX_ARGS w ?st ?fs of
           VCrash f \<Rightarrow> Crash f
         | VAbort st' \<Rightarrow> Return (st', EXIT_FAILURE)
         | VOk segments' \<Rightarrow> execute_pipeline MAX_ARGS w ?st segments')"
      unfolding execute_command_def Let_def using assms split False by simp
    show ?thesis
    proof (cases "validate_segments MAX_ARGS w ?st (take n ?fs)")
      case (VOk segs')
      then show ?thesis using validate_segments_ok bad by blast
    next
      case (VAbort st')
      then have full: "validate_segments MAX_ARGS w ?st ?fs = VAbort st'"
        by (rule validate_segments_prefix)
      show ?thesis using run full validate_segments_abort[OF full] by simp
    next
      case (VCrash f)
      then show ?thesis using validate_segments_no_crash[OF ok] by blast
    qed
  qed
next
  assume "MAX_ARGS \<le> count_list line PIPE"
  then have "split_segments MAX_ARGS line []
      = (if list_ex blank_segment (take MAX_ARGS (split_fields PIPE line)) then None
         else Some (take MAX_ARGS (split_fields PIPE line)))"
    using split_segments_take[of "[]" MAX_ARGS MAX_ARGS line] by simp
  then show "execute_command MAX_ARGS w st line
      = (let st1 = record_history w st line;
             segments = take MAX_ARGS (split_fields PIPE line)
         in if list_ex blank_segment segments
            then Return (wsh_warn st1 EMPTY_PIPE_SEGMENT, EXIT_FAILURE)
            else (case validate_segments MAX_ARGS w st1 segments of
                    VCrash f \<Rightarrow> Crash f
                  | VAbort st' \<Rightarrow> Return (st', EXIT_FAILURE)
                  | VOk segments' \<Rightarrow> execute_pipeline MAX_ARGS w st1 segments'))"
    unfolding execute_command_def Let_def using assms by simp
qed

lemma empty_segment_example: "has_empty_segment (''echo a | | echo b'' @ [NEWLINE])"
  by code_simp

lemma unknown_command_example:
  "list_ex (unresolvable 128 echo_world shell_init)
     (take 2 (split_fields PIPE (''echo a | nosuch'' @ [NEWLINE])))
   \<and> list_all (checkable 128 shell_init)
       (take 2 (split_fields PIPE (''echo a | nosuch'' @ [NEWLINE])))"
  by code_simp

lemma count_list_pipes:
  "count_list (concat (replicate k ''x|'') @ r) PIPE = k + count_list r PIPE"
  by (induction k) simp_all

theorem invalid_pipeline_aborted_before_spawn_witness:
  "(PIPE \<in> set (''echo a | | echo b'' @ [NEWLINE])
    \<and> count_list (''echo a | | echo b'' @ [NEWLINE]) PIPE < 128
    \<and> has_empty_segment (''echo a | | echo b'' @ [NEWLINE])
    \<and> (\<exists>st'. execute_command 128 echo_world shell_init (''echo a | | echo b'' @ [NEWLINE])
             = Return (st', EXIT_FAILURE)
           \<and> rc st' = EXIT_FAILURE \<and> procs st' = [] \<and> 0 < length (stderr_log st')))
   \<and> (PIPE \<in> set (''echo a | nosuch'' @ [NEWLINE])
    \<and> count_list (''echo a | nosuch'' @ [NEWLINE]) PIPE < 128
    \<and> list_ex (unresolvable 128 echo_world shell_init)
         (take 2 (split_fields PIPE (''echo a | nosuch'' @ [NEWLINE])))
    \<and> list_all (checkable 128 shell_init)
         (take 2 (split_fields PIPE (''echo a | nosuch'' @ [NEWLINE])))
    \<and> (\<exists>st'. execute_command 128 echo_world shell_init (''echo a | nosuch'' @ [NEWLINE])
             = Return (st', EXIT_FAILURE)
           \<and> rc st' = EXIT_FAILURE \<and> procs st' = [] \<and> 0 < length (stderr_log st')))
   \<and> (PIPE \<in> set (concat (replicate 128 ''x|'') @ [NEWLINE])
    \<and> 128 \<le> count_list (concat (replicate 128 ''x|'') @ [NEWLINE]) PIPE
    \<and> execute_command 128 x_world shell_init (concat (replicate 128 ''x|'') @ [NEWLINE])
        = (let st1 = record_history x_world shell_init (concat (replicate 128 ''x|'') @ [NEWLINE]);
               segments = take 128 (split_fields PIPE (concat (replicate 128 ''x|'') @ [NEWLINE]))
           in if list_ex blank_segment segments
              then Return (wsh_warn st1 EMPTY_PIPE_SEGMENT, EXIT_FAILURE)
              else (case validate_segments 128 x_world st1 segments of
                      VCrash f \<Rightarrow> Crash f
                    | VAbort st' \<Rightarrow> Return (st', EXIT_FAILURE)
                    | VOk segments' \<Rightarrow> execute_pipeline 128 x_world st1 segments')))"
proof -
  have p1: "PIPE \<in> set (''echo a | | echo b'' @ [NEWLINE])"
    and n1: "count_list (''echo a | | echo b'' @ [NEWLINE]) PIPE < 128"
    and p2: "PIPE \<in> set (''echo a | nosuch'' @ [NEWLINE])"
    and n2: "count_list (''echo a | nosuch'' @ [NEWLINE]) PIPE < 128"
    by simp_all
  have p3: "PIPE \<in> set (concat (replicate 128 ''x|'') @ [NEWLINE])"
    by simp
  have n3: "128 \<le> count_list (concat (replicate 128 ''x|'') @ [NEWLINE]) PIPE"
    unfolding count_list_pipes by simp
  have a: "\<exists>st'. execute_command 128 echo_world shell_init (''echo a | | echo b'' @ [NEWLINE])
             = Return (st', EXIT_FAILURE)
           \<and> rc st' = EXIT_FAILURE \<and> procs st' = [] \<and> 0 < length (stderr_log st')"
  proof -
    have "\<exists>st'. execute_command 128 echo_world shell_init (''echo a | | echo b'' @ [NEWLINE])
             = Return (st', EXIT_FAILURE)
           \<and> rc st' = EXIT_FAILURE \<and> procs st' = procs shell_init
           \<and> length (stderr_log shell_init) < length (stderr_log st')"
      by (rule invalid_pipeline_aborted_before_spawn
          [OF p1, of 128 echo_world shell_init, THEN conjunct1, THEN mp,
           OF conjI[OF n1 disjI1[OF empty_segment_example]]])
    then show ?thesis by (simp add: shell_init_def)
  qed
  have b: "\<exists>st'. execute_command 128 echo_world shell_init (''echo a | nosuch'' @ [NEWLINE])
             = Return (st', EXIT_FAILURE)
           \<and> rc st' = EXIT_FAILURE \<and> procs st' = [] \<and> 0 < length (stderr_log st')"
  proof -
    have ex: "\<exists>n. list_ex (unresolvable 128 echo_world shell_init)
             (take n (split_fields PIPE (''echo a | nosuch'' @ [NEWLINE])))
           \<and> list_all (checkable 128 shell_init)
               (take n (split_fields PIPE (''echo a | nosuch'' @ [NEWLINE])))"
      by (rule exI[of _ 2]) (rule unknown_command_example)
    have "\<exists>st'. execute_command 128 echo_world shell_init (''echo a | nosuch'' @ [NEWLINE])
             = Return (st', EXIT_FAILURE)
           \<and> rc st' = EXIT_FAILURE \<and> procs st' = procs shell_init
           \<and> length (stderr_log shell_init) < length (stderr_log st')"
      by (rule invalid_pipeline_aborted_before_spawn
          [OF p2, of 128 echo_world shell_init, THEN conjunct1, THEN mp,
           OF conjI[OF n2 disjI2[OF ex]]])
    then show ?thesis by (simp add: shell_init_def)
  qed
  note c = invalid_pipeline_aborted_before_spawn
      [OF p3, of 128 x_world shell_init, THEN conjunct2, THEN mp, OF n3]
  show ?thesis
    by (intro conjI p1 n1 empty_segment_example a p2 n2 b p3 n3 c
          unknown_command_example[THEN conjunct1] unknown_command_example[THEN conjunct2])
qed

lemma split_segments_truncates:
  "length segs + k = M \<Longrightarrow>
   split_segments M (concat (replicate k ''x|'') @ r) segs = Some (segs @ replicate k ''x'')"
proof (induction k arbitrary: segs)
  case 0
  then show ?case by (subst split_segments.simps) simp
next
  case (Suc k)
  have "split_segments M (concat (replicate k ''x|'') @ r) (segs @ [''x''])
      = Some ((segs @ [''x'']) @ replicate k ''x'')"
    using Suc.IH[of "segs @ [''x'']"] Suc.prems by simp
  then show ?case
    using Suc.prems
    by (subst split_segments.simps) (simp add: replicate_append_same)
qed

lemma parse_x: "0 < M \<Longrightarrow> parseline_no_subst M (Some ''x'') = Parsed [''x'']"
  unfolding parseline_no_subst_def
  by (simp add: tokenize_loop.simps[of M "''x ''"] tokenize_loop.simps[of M "[]"])

lemma validate_xs:
  "0 < M \<Longrightarrow> alias_hm st = [] \<Longrightarrow> path_env st = Some ''/bin:/usr/bin'' \<Longrightarrow>
   validate_segments M x_world st (replicate n ''x'') = VOk (replicate n ''x'')"
proof (induction n)
  case 0
  show ?case by simp
next
  case (Suc n)
  have "find_executable_path x_world st ''x'' = Some ''/bin/x''"
    using Suc.prems(3)
    by (simp add: find_executable_path_def strtok_all_def x_world_def bare_world_def)
  then show ?case
    using Suc parse_x[of M]
    by (simp add: call_parseline_def hm_get_def)
qed

lemma truncated_pipeline_runs:
  assumes "0 < M"
  shows "\<exists>st' r. execute_command M x_world shell_init (concat (replicate M ''x|'') @ [NEWLINE])
            = Return (st', r)
         \<and> length (forked_pids (procs st')) = M"
proof -
  let ?line = "concat (replicate M ''x|'') @ [NEWLINE]"
  let ?st = "record_history x_world shell_init ?line"
  have pipe: "PIPE \<in> set ?line" using assms by (cases M) auto
  have split: "split_segments M ?line [] = Some (replicate M ''x'')"
    using split_segments_truncates[of "[]" M M "[NEWLINE]"] by simp
  have val: "validate_segments M x_world ?st (replicate M ''x'') = VOk (replicate M ''x'')"
    using validate_xs[OF assms, of ?st M] by (simp add: shell_init_def)
  have created: "all_created x_world (length (replicate M ''x''))"
    by (simp add: all_created_def x_world_def bare_world_def list_all_iff)
  have ne: "replicate M ''x'' \<noteq> []" using assms by simp
  obtain st' r evs where run: "execute_pipeline M x_world ?st (replicate M ''x'') = Return (st', r)"
    "procs st' = procs ?st @ evs" "forked_pids evs = map (pid_of x_world) [0..<length (replicate M ''x'')]"
    using execute_pipeline_created[OF ne created, of M ?st] by blast
  have "execute_command M x_world shell_init ?line = Return (st', r)"
    unfolding execute_command_def Let_def using pipe split val run(1) by simp
  moreover have "length (forked_pids (procs st')) = M"
    using run(2,3) by (simp add: shell_init_def)
  ultimately show ?thesis by blast
qed

lemma trailing_empty_segment_example: "has_empty_segment (concat (replicate 128 ''x|'') @ [NEWLINE])"
  by code_simp

lemma empty_alias_segment_example:
  "(case execute_command 128 bare_world shell_init (''alias x ='' @ [NEWLINE]) of
      Return (st1, r1) \<Rightarrow>
        r1 = EXIT_SUCCESS
        \<and> unresolvable 128 bare_world st1 ('' nosuch'' @ [NEWLINE])
        \<and> execute_command 128 bare_world st1 (''x | nosuch'' @ [NEWLINE]) = Crash NullDeref
    | Exit c \<Rightarrow> False
    | Crash f \<Rightarrow> False)"
  by code_simp

text \<open>
  The counterexamples to C2 as stated. With \<^verbatim>\<open>MAX_ARGS = 128\<close>, the line of 128
  segments \<^verbatim>\<open>x\<close>, each followed by a pipe, ends in an empty segment; the split stops
  after 128 segments, the rest of the line is never looked at, and 128 processes are
  forked (the same holds for every other value of \<^verbatim>\<open>MAX_ARGS\<close>:
  \<open>truncated_pipeline_runs\<close>). And after \<^verbatim>\<open>alias x =\<close>, the line
  \<^verbatim>\<open>x | nosuch\<close>, whose second segment names no builtin and no executable, is not
  rejected with a diagnostic: the check of its first segment hands \<^verbatim>\<open>NULL\<close> to
  \<^verbatim>\<open>strcmp\<close> (the defect of lines 601-611, \<open>empty_alias_expansion_crashes_pipeline\<close>).
\<close>

theorem pipeline_validation_counterexample:
  "has_empty_segment (concat (replicate 128 ''x|'') @ [NEWLINE])
   \<and> (case execute_command 128 x_world shell_init (concat (replicate 128 ''x|'') @ [NEWLINE]) of
        Return (st', r) \<Rightarrow> length (forked_pids (procs st')) = 128
      | Exit c \<Rightarrow> False
      | Crash f \<Rightarrow> False)
   \<and> (case execute_command 128 bare_world shell_init (''alias x ='' @ [NEWLINE]) of
        Return (st1, r1) \<Rightarrow>
          r1 = EXIT_SUCCESS
          \<and> unresolvable 128 bare_world st1 ('' nosuch'' @ [NEWLINE])
          \<and> execute_command 128 bare_world st1 (''x | nosuch'' @ [NEWLINE]) = Crash NullDeref
      | Exit c \<Rightarrow> False
      | Crash f \<Rightarrow> False)"
  using truncated_pipeline_runs [of 128] trailing_empty_segment_example
    empty_alias_segment_example
  by auto

section \<open>The history listing\<close>

lemma da_print_nonempty: "da \<noteq> [] \<Longrightarrow> \<exists>shown. da_print da = Inr shown"
proof -
  assume "da \<noteq> []"
  then have "0 \<le> int (length da) - 1" by (cases da) auto
  then have "(int (length da) - 1) mod 2 ^ 64 \<le> int (length da) - 1"
    by (rule zmod_le_nonneg_dividend)
  then have "da_print_bound da \<le> int (length da)"
    unfolding da_print_bound_def by linarith
  then show ?thesis by (simp add: da_print_def)
qed

text \<open>
  The listing loop of \<^verbatim>\<open>da_print\<close> runs past the array exactly when the history
  builtin runs without argument on an empty history.
\<close>

lemma wsh_history_overrun_iff:
  "wsh_history w s [a0] = Crash HistoryOverrun \<longleftrightarrow> history_da s = []"
proof (cases "history_da s = []")
  case True
  then show ?thesis by (simp add: wsh_history_def da_print_def da_print_bound_def)
next
  case False
  then obtain shown where "da_print (history_da s) = Inr shown"
    using da_print_nonempty by blast
  then show ?thesis using False by (simp add: wsh_history_def)
qed

text \<open>
  C10 (the code does not do what the claim says). The claim: whenever the history
  builtin runs without argument, the dispatcher has appended the triggering line, so
  the history is non-empty and the listing leaves out that line. The builtin runs on
  lines the dispatcher has not appended. The dispatcher appends a line unless it
  consists of spaces and tabs, while the tokenizer separates on spaces only, so a tab is a token
  and can name an alias. After \<^verbatim>\<open>alias <TAB> = history\<close> and \<^verbatim>\<open>path\<close>, the line that
  consists of one tab runs the history builtin without argument and is not appended:
  the history is unchanged, and the listing prints the first entry and leaves out
  \<^verbatim>\<open>path\<close>, an earlier command, instead of the triggering line. And when the copy of
  the line at the start of \<^verbatim>\<open>execute_command\<close> cannot be allocated, the line is
  executed without being appended: \<^verbatim>\<open>history\<close> as the first line of a shell then runs
  the listing on the empty array, where \<^verbatim>\<open>size - 1\<close> wraps around to the largest value
  of its type and the loop reads past the array.
\<close>

theorem history_runs_on_unrecorded_line:
  "(case execute_command 128 bare_world shell_init (''alias '' @ [TABCH] @ '' = history'' @ [NEWLINE]) of
      Return (st1, r1) \<Rightarrow>
        (case execute_command 128 bare_world st1 (''path'' @ [NEWLINE]) of
           Return (st2, r2) \<Rightarrow>
             (case execute_command 128 bare_world st2 [TABCH, NEWLINE] of
                Return (st3, r3) \<Rightarrow>
                  r3 = EXIT_SUCCESS
                  \<and> history_da st2 = [''alias '' @ [TABCH] @ '' = history'' @ [NEWLINE], ''path'' @ [NEWLINE]]
                  \<and> history_da st3 = history_da st2
                  \<and> stdout_log st3 = stdout_log st2 @ [Text (''alias '' @ [TABCH] @ '' = history'' @ [NEWLINE])]
              | Exit c \<Rightarrow> False
              | Crash f \<Rightarrow> False)
         | Exit c \<Rightarrow> False
         | Crash f \<Rightarrow> False)
    | Exit c \<Rightarrow> False
    | Crash f \<Rightarrow> False)
   \<and> record_history copy_fails_world shell_init (''history'' @ [NEWLINE]) = shell_init
   \<and> da_print_bound (history_da shell_init) = 2 ^ 64 - 1
   \<and> execute_command 128 copy_fails_world shell_init (''history'' @ [NEWLINE]) = Crash HistoryOverrun"
  by code_simp

end
